theory Spec2Isabelle
  imports Complex_Main "HOL-Library.Word"
begin

section \<open>Machine integers and samples\<close>

text \<open>
  The engine works on fixed-width signed integers.  They are modelled as words:
  \<open>+\<close>, \<open>-\<close> and \<open>*\<close> wrap around, \<open>sint\<close> reads the two's-complement value,
  \<open><s\<close> and \<open><=s\<close> are the signed comparisons and \<open>scast\<close> is the sign-extending
  conversion that C++ applies when an \<open>int32_t\<close> meets an \<open>int64_t\<close>.
  \<open>std::atomic<int64_t>::fetch_add\<close> is defined to wrap; for the plain signed
  arithmetic of the mix loop the model takes the two's-complement result as well.

  A \<open>float\<close> sample is modelled by the real number it denotes.  The conversion of
  \<open>loadTrack\<close> (a 16-bit integer times \<open>2^-15\<close>) and the comparisons of the soft
  clipper are exact in single precision, so nothing is lost there; the rounding of
  \<open>std::tanh\<close> is not modelled.  The summation of the mix does not depend on any law of
  addition: it is defined for every type with a \<open>+\<close>, so what is proved about it holds
  for rounding float addition as well.
\<close>

type_synonym int16_t = "16 word"
type_synonym int32_t = "32 word"
type_synonym int64_t = "64 word"

definition kSampleRate :: int32_t where
  "kSampleRate = 44100"

definition kChannelCountOut :: int32_t where
  "kChannelCountOut = 2"

definition kChannelCountIn :: int32_t where
  "kChannelCountIn = 1"

section \<open>Data model\<close>

record 'a Track =
  data :: "'a list"
  startFrame :: int32_t
  lengthFrames :: int32_t

text \<open>
  The audio device layer (Oboe) is an external collaborator.  Of a stream the engine
  only uses its state, \<open>start\<close>, \<open>stop\<close>, \<open>close\<close> and, for the input stream, the
  non-blocking \<open>read\<close>.  A stream is modelled by its state and by the samples the
  device holds ready for the next read.
\<close>

datatype StreamState = Open | Started | Stopped | Closed

record AudioStream =
  state :: StreamState
  ready :: "int16_t list"

definition stream_stop :: "AudioStream \<Rightarrow> AudioStream" where
  "stream_stop st = (if state st = Started then st\<lparr>state := Stopped\<rparr> else st)"

definition stream_close :: "AudioStream \<Rightarrow> AudioStream" where
  "stream_close st = st\<lparr>state := Closed\<rparr>"

text \<open>
  \<open>read(buffer, numFrames, 0)\<close>: takes what is ready, at most \<open>numFrames\<close> samples,
  and never waits.  The result is the list of samples delivered; its length is the
  count that \<open>readResult.value()\<close> reports.
\<close>

definition stream_read :: "AudioStream \<Rightarrow> int32_t \<Rightarrow> int16_t list \<times> AudioStream" where
  "stream_read st numFrames =
     (take (nat (sint numFrames)) (ready st),
      st\<lparr>ready := drop (nat (sint numFrames)) (ready st)\<rparr>)"

text \<open>What the device answers when streams are opened and started.\<close>

record Device =
  openPlayOK :: bool
  openRecordOK :: bool
  startRecordOK :: bool
  startPlayOK :: bool

text \<open>
  \<open>std::ofstream\<close>, as far as the engine uses it.  \<open>open\<close> on a stream that is
  already open fails: the old file stays attached and the stream enters the failed
  state.  A successful \<open>open\<close> clears the error state.  \<open>write\<close> on a stream that is
  not \<open>good()\<close> writes nothing.  \<open>content\<close> is what has been written to the
  attached file, kept per sample (two bytes each); a newly opened file is empty.  The
  first argument of \<open>ofstream_open\<close> says whether the operating system can open the
  path for writing.
\<close>

record ofstream =
  is_open :: bool
  good :: bool
  content :: "int16_t list"

definition ofstream_open :: "bool \<Rightarrow> ofstream \<Rightarrow> ofstream" where
  "ofstream_open ok f =
     (if is_open f then f\<lparr>good := False\<rparr>
      else if ok then \<lparr>is_open = True, good = True, content = []\<rparr>
      else f\<lparr>good := False\<rparr>)"

definition ofstream_write :: "int16_t list \<Rightarrow> ofstream \<Rightarrow> ofstream" where
  "ofstream_write xs f =
     (if \<not> good f then f
      else if is_open f then f\<lparr>content := content f @ xs\<rparr>
      else f\<lparr>good := False\<rparr>)"

definition ofstream_close :: "ofstream \<Rightarrow> ofstream" where
  "ofstream_close f = (if is_open f then f\<lparr>is_open := False\<rparr> else f\<lparr>good := False\<rparr>)"

record AudioEngine =
  mPlayStream :: "AudioStream option"
  mRecordStream :: "AudioStream option"
  mTracks :: "real Track list"
  mIsRecording :: bool
  mRecordingFile :: ofstream
  mRecordStartFrame :: int32_t
  mRecordedSampleCount :: int64_t
  mCurrentFrame :: int64_t
  mIsRunning :: bool

text \<open>The state after the constructor: the member initialisers of the class.\<close>

definition newAudioEngine :: AudioEngine where
  "newAudioEngine =
     \<lparr>mPlayStream = None, mRecordStream = None, mTracks = [],
      mIsRecording = False,
      mRecordingFile = \<lparr>is_open = False, good = True, content = []\<rparr>,
      mRecordStartFrame = 0, mRecordedSampleCount = 0, mCurrentFrame = 0,
      mIsRunning = False\<rparr>"

definition getRecordingStartFrame :: "AudioEngine \<Rightarrow> int64_t" where
  "getRecordingStartFrame s = scast (mRecordStartFrame s)"

definition getRecordedSampleCount :: "AudioEngine \<Rightarrow> int64_t" where
  "getRecordedSampleCount s = mRecordedSampleCount s"

definition getCurrentFrame :: "AudioEngine \<Rightarrow> int64_t" where
  "getCurrentFrame s = mCurrentFrame s"

section \<open>Lifecycle\<close>

definition openStreams :: "Device \<Rightarrow> AudioEngine \<Rightarrow> AudioEngine" where
  "openStreams dev s =
     (if \<not> openPlayOK dev then s\<lparr>mPlayStream := None\<rparr>
      else
        (let s1 = s\<lparr>mPlayStream := Some \<lparr>state = Open, ready = []\<rparr>\<rparr>
         in if \<not> openRecordOK dev then s1\<lparr>mRecordStream := None\<rparr>
            else s1\<lparr>mRecordStream := Some \<lparr>state = Open, ready = []\<rparr>\<rparr>))"

text \<open>
  \<open>closeStreams\<close> and \<open>reset\<close> release the handles, so what they did to the streams
  cannot be read off the engine afterwards.  The model returns it with the new state:
  the calls made on the device, in order, each with the stream as the call left it.
\<close>

datatype Which = Play | Record

datatype DeviceCall = StopCall Which AudioStream | CloseCall Which AudioStream

definition streamsHeld :: "AudioEngine \<Rightarrow> (Which \<times> AudioStream) list" where
  "streamsHeld s =
     (case mPlayStream s of None \<Rightarrow> [] | Some p \<Rightarrow> [(Play, p)])
     @ (case mRecordStream s of None \<Rightarrow> [] | Some r \<Rightarrow> [(Record, r)])"

definition closeStreams :: "AudioEngine \<Rightarrow> AudioEngine \<times> DeviceCall list" where
  "closeStreams s =
     (let (s1, c1) = (case mPlayStream s of None \<Rightarrow> (s, [])
                      | Some p \<Rightarrow> (s\<lparr>mPlayStream := None\<rparr>, [CloseCall Play (stream_close p)]));
          (s2, c2) = (case mRecordStream s1 of None \<Rightarrow> (s1, [])
                      | Some r \<Rightarrow> (s1\<lparr>mRecordStream := None\<rparr>, [CloseCall Record (stream_close r)]))
      in (s2, c1 @ c2))"

definition startable :: "AudioStream \<Rightarrow> bool" where
  "startable st \<longleftrightarrow> state st = Stopped \<or> state st = Open"

definition start :: "Device \<Rightarrow> AudioEngine \<Rightarrow> AudioEngine" where
  "start dev s =
     (if mIsRunning s then s
      else
        (let s1 = (case mPlayStream s of None \<Rightarrow> openStreams dev s
                   | Some p \<Rightarrow> if state p = Closed then openStreams dev s else s);
             s2 = (case mRecordStream s1 of None \<Rightarrow> s1
                   | Some r \<Rightarrow>
                       if startable r \<and> startRecordOK dev
                       then s1\<lparr>mRecordStream := Some (r\<lparr>state := Started\<rparr>)\<rparr> else s1)
         in case mPlayStream s2 of None \<Rightarrow> s2
            | Some p \<Rightarrow>
                if startable p \<and> startPlayOK dev
                then s2\<lparr>mPlayStream := Some (p\<lparr>state := Started\<rparr>), mIsRunning := True\<rparr>
                else s2))"

definition stopStreams :: "AudioEngine \<Rightarrow> AudioEngine" where
  "stopStreams s =
     s\<lparr>mPlayStream := map_option stream_stop (mPlayStream s),
       mRecordStream := map_option stream_stop (mRecordStream s)\<rparr>"

definition stop :: "AudioEngine \<Rightarrow> AudioEngine" where
  "stop s = (if \<not> mIsRunning s then s else stopStreams (s\<lparr>mIsRunning := False\<rparr>))"

text \<open>
  \<open>reset\<close>: the stop calls are those of \<open>stopStreams\<close>; they are logged with the streams
  as \<open>stopStreams\<close> has left them.
\<close>

definition reset :: "AudioEngine \<Rightarrow> AudioEngine \<times> DeviceCall list" where
  "reset s =
     (let s1 = s\<lparr>mIsRunning := False\<rparr>;
          s2 = stopStreams s1;
          stops = map (\<lambda>(w, st). StopCall w st) (streamsHeld s2);
          (s3, closes) = closeStreams s2
      in (s3\<lparr>mCurrentFrame := 0\<rparr>, stops @ closes))"

definition seekToFrame :: "int64_t \<Rightarrow> AudioEngine \<Rightarrow> AudioEngine" where
  "seekToFrame frame s = s\<lparr>mCurrentFrame := frame\<rparr>"

section \<open>Track store\<close>

datatype error = LengthError

text \<open>
  The conversion loop of \<open>loadTrack\<close>:
  \<open>track.data[i] = static_cast<float>(data[i]) * scalar\<close> for \<open>i\<close> from \<open>0\<close> while
  \<open>i < numSamples\<close>.
\<close>

definition scalar :: real where
  "scalar = 1 / 32768"

function convertLoop :: "int16_t list \<Rightarrow> int32_t \<Rightarrow> int32_t \<Rightarrow> real list \<Rightarrow> real list" where
  "convertLoop data16 numSamples i trackData =
     (if i <s numSamples then
        convertLoop data16 numSamples (i + 1)
          (trackData[nat (sint i) := real_of_int (sint (data16 ! nat (sint i))) * scalar])
      else trackData)"
  by pat_completeness auto
termination
proof (relation "measure (\<lambda>(data16, numSamples, i, trackData). nat (sint numSamples - sint i))")
  show "wf (measure (\<lambda>(data16, numSamples, i, trackData). nat (sint numSamples - sint i)))"
    by simp
next
  fix data16 :: "int16_t list" and numSamples i :: int32_t and trackData :: "real list"
  assume "i <s numSamples"
  then have lt: "sint i < sint numSamples"
    by (simp add: word_sless_alt)
  have "sint numSamples < 2 ^ 31" "- (2 ^ 31) \<le> sint i"
    using sint_lt [of numSamples] sint_ge [of i] by simp_all
  with lt have "sint (i + 1) = sint i + 1"
    by (simp add: sint_word_ariths signed_take_bit_int_eq_self)
  with lt show "((data16, numSamples, i + 1, trackData[nat (sint i) := real_of_int (sint (data16 ! nat (sint i))) * scalar]),
                 (data16, numSamples, i, trackData))
        \<in> measure (\<lambda>(data16, numSamples, i, trackData). nat (sint numSamples - sint i))"
    by simp
qed

text \<open>
  \<open>track.data.resize(numSamples)\<close> converts a negative count to a huge \<open>size_t\<close> and
  throws \<open>std::length_error\<close>; nothing is appended then.  The track id is only logged.
\<close>

definition loadTrack :: "string \<Rightarrow> int16_t list \<Rightarrow> int32_t \<Rightarrow> int32_t \<Rightarrow> AudioEngine \<Rightarrow> error + AudioEngine" where
  "loadTrack trackId data16 numSamples startFrame' s =
     (if numSamples <s 0 then Inl LengthError
      else
        (let track = \<lparr>data = convertLoop data16 numSamples 0 (replicate (nat (sint numSamples)) 0),
                      startFrame = startFrame', lengthFrames = numSamples\<rparr>
         in Inr (s\<lparr>mTracks := mTracks s @ [track]\<rparr>)))"

definition clearTracks :: "AudioEngine \<Rightarrow> AudioEngine" where
  "clearTracks s = s\<lparr>mTracks := []\<rparr>"

section \<open>Recording control\<close>

text \<open>
  The first argument tells which paths the operating system can open for writing.
\<close>

definition startRecording :: "(string \<Rightarrow> bool) \<Rightarrow> string \<Rightarrow> int32_t \<Rightarrow> AudioEngine \<Rightarrow> AudioEngine" where
  "startRecording fs filePath startFrame' s =
     (let s1 = s\<lparr>mRecordStartFrame := startFrame'\<rparr>;
          s2 = s1\<lparr>mRecordedSampleCount := 0\<rparr>;
          s3 = s2\<lparr>mRecordingFile := ofstream_open (fs filePath) (mRecordingFile s2)\<rparr>
      in if is_open (mRecordingFile s3) then s3\<lparr>mIsRecording := True\<rparr> else s3)"

definition stopRecording :: "AudioEngine \<Rightarrow> AudioEngine" where
  "stopRecording s =
     (let s1 = s\<lparr>mIsRecording := False\<rparr>
      in if is_open (mRecordingFile s1)
         then s1\<lparr>mRecordingFile := ofstream_close (mRecordingFile s1)\<rparr> else s1)"

section \<open>The audio callback\<close>

subsection \<open>Capture\<close>

text \<open>
  The scratch buffer has \<open>numFrames\<close> zeroed slots; the read fills its first slots.
  What is written is the first \<open>readResult.value()\<close> samples of the buffer.
\<close>

definition capture :: "int64_t \<Rightarrow> int32_t \<Rightarrow> AudioEngine \<Rightarrow> AudioEngine" where
  "capture currentFrame numFrames s =
     (case mRecordStream s of
        None \<Rightarrow> s
      | Some rs \<Rightarrow>
          if state rs = Started then
            (let (got, rs') = stream_read rs numFrames;
                 inputBuffer = got @ replicate (nat (sint numFrames) - length got) 0;
                 readResult = (word_of_nat (length got) :: int32_t);
                 s1 = s\<lparr>mRecordStream := Some rs'\<rparr>
             in if 0 <s readResult \<and> mIsRecording s1 \<and> is_open (mRecordingFile s1) then
                  (if scast (mRecordStartFrame s1) <=s currentFrame then
                     s1\<lparr>mRecordingFile :=
                           ofstream_write (take (nat (sint readResult)) inputBuffer) (mRecordingFile s1),
                        mRecordedSampleCount := mRecordedSampleCount s1 + scast readResult\<rparr>
                   else s1)
                else s1)
          else s)"

subsection \<open>Mix\<close>

text \<open>The inner loop over the frames of one callback, for one track.\<close>

function mixLoop :: "'a::plus Track \<Rightarrow> int64_t \<Rightarrow> int32_t \<Rightarrow> int32_t \<Rightarrow> 'a list \<Rightarrow> 'a list" where
  "mixLoop track trackOffset numFrames i outputBuffer =
     (if i <s numFrames then
        (let sampleIndex = trackOffset + scast i in
         mixLoop track trackOffset numFrames (i + 1)
           (if 0 <=s sampleIndex \<and> sampleIndex <s scast (lengthFrames track) then
              (let sample = data track ! nat (sint sampleIndex);
                   out1 = outputBuffer[nat (sint (i * 2)) := outputBuffer ! nat (sint (i * 2)) + sample]
               in out1[nat (sint (i * 2 + 1)) := out1 ! nat (sint (i * 2 + 1)) + sample])
            else outputBuffer))
      else outputBuffer)"
  by pat_completeness auto
termination
proof (relation "measure (\<lambda>(track, trackOffset, numFrames, i, outputBuffer). nat (sint numFrames - sint i))")
  show "wf (measure (\<lambda>(track :: 'a Track, trackOffset :: int64_t, numFrames :: int32_t, i :: int32_t, outputBuffer :: 'a list).
          nat (sint numFrames - sint i)))"
    by simp
next
  fix track :: "'a Track" and trackOffset :: int64_t and numFrames i :: int32_t
    and outputBuffer :: "'a list" and sampleIndex :: int64_t
  assume "i <s numFrames"
  then have lt: "sint i < sint numFrames"
    by (simp add: word_sless_alt)
  have "sint numFrames < 2 ^ 31" "- (2 ^ 31) \<le> sint i"
    using sint_lt [of numFrames] sint_ge [of i] by simp_all
  with lt have "sint (i + 1) = sint i + 1"
    by (simp add: sint_word_ariths signed_take_bit_int_eq_self)
  with lt show "((track, trackOffset, numFrames, i + 1,
                  if 0 <=s sampleIndex \<and> sampleIndex <s scast (lengthFrames track) then
                    (let sample = data track ! nat (sint sampleIndex);
                         out1 = outputBuffer[nat (sint (i * 2)) := outputBuffer ! nat (sint (i * 2)) + sample]
                     in out1[nat (sint (i * 2 + 1)) := out1 ! nat (sint (i * 2 + 1)) + sample])
                  else outputBuffer),
                 (track, trackOffset, numFrames, i, outputBuffer))
        \<in> measure (\<lambda>(track, trackOffset, numFrames, i, outputBuffer). nat (sint numFrames - sint i))"
    by simp
qed

definition mixTrack :: "int64_t \<Rightarrow> int32_t \<Rightarrow> 'a::plus Track \<Rightarrow> 'a list \<Rightarrow> 'a list" where
  "mixTrack currentFrame numFrames track outputBuffer =
     (let trackOffset = currentFrame - scast (startFrame track)
      in if trackOffset <s scast (lengthFrames track) \<and> 0 <s trackOffset + scast numFrames
         then mixLoop track trackOffset numFrames 0 outputBuffer
         else outputBuffer)"

fun mixTracks :: "int64_t \<Rightarrow> int32_t \<Rightarrow> 'a::plus Track list \<Rightarrow> 'a list \<Rightarrow> 'a list" where
  "mixTracks currentFrame numFrames [] outputBuffer = outputBuffer"
| "mixTracks currentFrame numFrames (track # tracks) outputBuffer =
     mixTracks currentFrame numFrames tracks (mixTrack currentFrame numFrames track outputBuffer)"

subsection \<open>Soft clipping\<close>

function clipLoop :: "int32_t \<Rightarrow> int32_t \<Rightarrow> real list \<Rightarrow> real list" where
  "clipLoop numFrames i outputBuffer =
     (if i <s numFrames * kChannelCountOut then
        (let sample = outputBuffer ! nat (sint i) in
         clipLoop numFrames (i + 1)
           (if sample > 1 \<or> sample < - 1
            then outputBuffer[nat (sint i) := tanh sample] else outputBuffer))
      else outputBuffer)"
  by pat_completeness auto
termination
proof (relation "measure (\<lambda>(numFrames, i, outputBuffer). nat (sint (numFrames * kChannelCountOut) - sint i))")
  show "wf (measure (\<lambda>(numFrames, i, outputBuffer :: real list). nat (sint (numFrames * kChannelCountOut) - sint i)))"
    by simp
next
  fix numFrames i :: int32_t and outputBuffer :: "real list" and sample :: real
  assume "i <s numFrames * kChannelCountOut"
  then have lt: "sint i < sint (numFrames * kChannelCountOut)"
    by (simp add: word_sless_alt)
  have "sint (numFrames * kChannelCountOut) < 2 ^ 31" "- (2 ^ 31) \<le> sint i"
    using sint_lt [of "numFrames * kChannelCountOut"] sint_ge [of i] by simp_all
  with lt have "sint (i + 1) = sint i + 1"
    by (simp add: sint_word_ariths signed_take_bit_int_eq_self)
  with lt show "((numFrames, i + 1,
                  if sample > 1 \<or> sample < - 1 then outputBuffer[nat (sint i) := tanh sample] else outputBuffer),
                 (numFrames, i, outputBuffer))
        \<in> measure (\<lambda>(numFrames, i, outputBuffer). nat (sint (numFrames * kChannelCountOut) - sint i))"
    by simp
qed

subsection \<open>\<open>onAudioReady\<close>\<close>

text \<open>
  The clock is read once on entry.  The output buffer that the device hands over has
  \<open>numFrames * kChannelCountOut\<close> slots, all of which \<open>std::fill\<close> sets to zero.  The
  function returns the new engine state and the buffer it has filled.

  The device calls with \<open>0 \<le> numFrames\<close> and with \<open>numFrames * kChannelCountOut\<close>
  inside the 32-bit range.  Outside of that the C++ has no defined behaviour (the
  product overflows, \<open>std::fill\<close> gets a reversed range), and what the model computes
  there means nothing; statements about a callback assume this contract.
\<close>

definition onAudioReady :: "int32_t \<Rightarrow> AudioEngine \<Rightarrow> AudioEngine \<times> real list" where
  "onAudioReady numFrames s =
     (let currentFrame = mCurrentFrame s;
          s1 = capture currentFrame numFrames s;
          out0 = replicate (nat (sint (numFrames * kChannelCountOut))) 0;
          out1 = mixTracks currentFrame numFrames (mTracks s1) out0;
          out2 = clipLoop numFrames 0 out1;
          s2 = s1\<lparr>mCurrentFrame := mCurrentFrame s1 + scast numFrames\<rparr>
      in (s2, out2))"

text \<open>A run of callbacks, one per delivered buffer, with nothing in between.\<close>

fun callbacks :: "int32_t list \<Rightarrow> AudioEngine \<Rightarrow> AudioEngine" where
  "callbacks [] s = s"
| "callbacks (numFrames # rest) s = callbacks rest (fst (onAudioReady numFrames s))"

definition onErrorAfterClose :: "bool \<Rightarrow> AudioEngine \<Rightarrow> AudioEngine" where
  "onErrorAfterClose disconnected s = (if disconnected then s\<lparr>mIsRunning := False\<rparr> else s)"

section \<open>Concrete inputs\<close>

text \<open>
  The device side of the input stream: while the stream is started, captured samples
  become ready for the next read.
\<close>

definition micInput :: "int16_t list \<Rightarrow> AudioEngine \<Rightarrow> AudioEngine" where
  "micInput xs s =
     (case mRecordStream s of None \<Rightarrow> s
      | Some rs \<Rightarrow> if state rs = Started then s\<lparr>mRecordStream := Some (rs\<lparr>ready := ready rs @ xs\<rparr>)\<rparr> else s)"

text \<open>A device on which every open and start succeeds.\<close>

definition workingDevice :: Device where
  "workingDevice = \<lparr>openPlayOK = True, openRecordOK = True, startRecordOK = True, startPlayOK = True\<rparr>"

text \<open>A file system on which only \<open>/a.pcm\<close> can be opened for writing.\<close>

definition onlyA :: "string \<Rightarrow> bool" where
  "onlyA p \<longleftrightarrow> p = ''/a.pcm''"

text \<open>
  A running engine that records to \<open>/a.pcm\<close>; the same engine after a second
  \<open>startRecording\<close> without a \<open>stopRecording\<close> in between; and that engine at frame 10
  with one captured sample ready.
\<close>

definition recordingA :: AudioEngine where
  "recordingA = startRecording onlyA ''/a.pcm'' 0 (start workingDevice newAudioEngine)"

definition recordingB :: AudioEngine where
  "recordingB = startRecording onlyA ''/b.pcm'' 5 recordingA"

definition restarted :: AudioEngine where
  "restarted = micInput [5] (seekToFrame 10 recordingB)"

text \<open>
  An engine after a complete recording session: started, armed at frame 7, three
  samples captured in one callback from frame 7, recording stopped.  It is still
  running, at frame 10.
\<close>

definition afterSession :: AudioEngine where
  "afterSession =
     stopRecording (fst (onAudioReady 3 (micInput [1, 2, 3]
       (seekToFrame 7 (startRecording onlyA ''/a.pcm'' 7 (start workingDevice newAudioEngine))))))"

text \<open>The largest frame position, \<open>2^63 - 1\<close>.\<close>

definition maxFrame :: int64_t where
  "maxFrame = 9223372036854775807"

text \<open>Four tracks of one sample \<open>0.5\<close> each, all placed at frame 0: they sum to \<open>2.0\<close>.\<close>

definition halfTrack :: "real Track" where
  "halfTrack = \<lparr>data = [1 / 2], startFrame = 0, lengthFrames = 1\<rparr>"

definition loudEngine :: AudioEngine where
  "loudEngine = newAudioEngine\<lparr>mTracks := [halfTrack, halfTrack, halfTrack, halfTrack]\<rparr>"

text \<open>
  The overlap example on an engine: a ramp of 50 samples (sample \<open>k\<close> is \<open>k/64\<close>) placed
  at frame 100, loaded after the half-amplitude track, with the clock at frame 80.
\<close>

definition rampTrack :: "real Track" where
  "rampTrack = \<lparr>data = map (\<lambda>k. real k / 64) [0..<50], startFrame = 100, lengthFrames = 50\<rparr>"

definition overlapEngine :: AudioEngine where
  "overlapEngine = seekToFrame 80 (newAudioEngine\<lparr>mTracks := [halfTrack, rampTrack]\<rparr>)"

text \<open>Raw samples with the two extreme values of the 16-bit range.\<close>

definition extremes :: "int16_t list" where
  "extremes = [- 32768, 32767, 0, 16384]"

text \<open>
  The loop equations unfold without end when used as rewrite rules on a symbolic
  counter; they are applied by hand or by computation induction.
\<close>

declare convertLoop.simps [simp del] mixLoop.simps [simp del] clipLoop.simps [simp del]

section \<open>Signed arithmetic without overflow\<close>

lemma sint_succ32: "i <s n \<Longrightarrow> sint (i + 1 :: int32_t) = sint i + 1"
proof -
  assume "i <s n"
  then have "sint i < sint n" by (simp add: word_sless_alt)
  moreover have "sint n < 2 ^ 31" "- (2 ^ 31) \<le> sint i"
    using sint_lt [of n] sint_ge [of i] by simp_all
  ultimately show ?thesis
    by (simp add: sint_word_ariths signed_take_bit_int_eq_self)
qed

lemma sint_twice:
  assumes "0 \<le> sint (i :: int32_t)" "sint i < 2 ^ 30"
  shows "sint (i * 2) = 2 * sint i" "sint (i * 2 + 1) = 2 * sint i + 1"
  using assms by (simp_all add: sint_word_ariths signed_take_bit_int_eq_self)

lemma sint_scast64: "sint (scast (i :: int32_t) :: int64_t) = sint i"
  by (simp add: sint_up_scast is_up)

lemma sint32_bounds: "- (2 ^ 31) \<le> sint (i :: int32_t)" "sint (i :: int32_t) < 2 ^ 31"
  using sint_ge [of i] sint_lt [of i] by simp_all

lemma sint16_bounds:
  "- 32768 \<le> real_of_int (sint (d :: int16_t))" "real_of_int (sint (d :: int16_t)) < 32768"
proof -
  have "- 32768 \<le> sint d" "sint d < 32768"
    using sint_ge [of d] sint_lt [of d] by simp_all
  then show "- 32768 \<le> real_of_int (sint d)" "real_of_int (sint d) < 32768"
    by linarith+
qed

lemma sint_small64:
  fixes a b :: int64_t
  assumes "- (2 ^ 62) \<le> sint a" "sint a < 2 ^ 62" "- (2 ^ 62) \<le> sint b" "sint b < 2 ^ 62"
  shows "sint (a + b) = sint a + sint b" "sint (a - b) = sint a - sint b"
  using assms by (simp_all add: sint_word_ariths signed_take_bit_int_eq_self)

lemma sint_sub64:
  fixes a b :: int64_t
  assumes "- (2 ^ 63) \<le> sint a - sint b" "sint a - sint b < 2 ^ 63"
  shows "sint (a - b) = sint a - sint b"
  using assms by (simp add: sint_word_ariths signed_take_bit_int_eq_self)

lemma sint_add64:
  fixes a b :: int64_t
  assumes "- (2 ^ 63) \<le> sint a + sint b" "sint a + sint b < 2 ^ 63"
  shows "sint (a + b) = sint a + sint b"
  using assms by (simp add: sint_word_ariths signed_take_bit_int_eq_self)

lemma sint_of_nat32: "k < 2 ^ 31 \<Longrightarrow> sint (word_of_nat k :: int32_t) = int k"
  by (simp add: signed_of_nat signed_take_bit_int_eq_self)

lemma scast_of_nat32: "k < 2 ^ 31 \<Longrightarrow> (scast (word_of_nat k :: int32_t) :: int64_t) = word_of_nat k"
  by (rule signed_word_eqI) (simp add: sint_scast64 signed_of_nat signed_take_bit_int_eq_self)

lemma overlap_guard:
  fixes trackOffset :: int64_t and i numFrames len :: int32_t
  assumes i: "0 <=s i" "i <s numFrames"
    and c: "0 <=s trackOffset + scast i" "trackOffset + scast i <s scast len"
  shows "trackOffset <s scast len \<and> 0 <s trackOffset + scast numFrames"
proof -
  define x where "x = trackOffset + (scast i :: int64_t)"
  have off: "trackOffset = x - scast i"
    by (simp add: x_def)
  have offn: "trackOffset + scast numFrames = x + (scast numFrames - scast i)"
    by (simp add: x_def)
  from i have i': "0 \<le> sint i" "sint i < sint numFrames"
    by (simp_all add: word_sle_eq word_sless_alt)
  from c have x: "0 \<le> sint x" "sint x < sint len"
    by (simp_all add: word_sle_eq word_sless_alt x_def sint_scast64)
  note b = sint32_bounds [of i] sint32_bounds [of numFrames] sint32_bounds [of len]
  have d: "sint (scast numFrames - scast i :: int64_t) = sint numFrames - sint i"
    using b by (subst sint_small64) (simp_all add: sint_scast64)
  have "sint trackOffset = sint x - sint i"
    unfolding off using b x by (subst sint_small64) (simp_all add: sint_scast64)
  moreover have "sint (trackOffset + scast numFrames) = sint x + (sint numFrames - sint i)"
    unfolding offn using b x d by (subst sint_small64) simp_all
  ultimately show ?thesis
    using i' x by (simp add: word_sless_alt sint_scast64)
qed

section \<open>The callback reads the clock once\<close>

lemma capture_clock: "mCurrentFrame (capture currentFrame numFrames s) = mCurrentFrame s"
  by (simp add: capture_def Let_def split: option.splits prod.splits)

lemma capture_tracks: "mTracks (capture currentFrame numFrames s) = mTracks s"
  by (simp add: capture_def Let_def split: option.splits prod.splits)

lemma capture_clock_update:
  "capture currentFrame numFrames (s\<lparr>mCurrentFrame := c\<rparr>) = (capture currentFrame numFrames s)\<lparr>mCurrentFrame := c\<rparr>"
  by (simp add: capture_def Let_def split: option.splits prod.splits)

lemma onAudioReady_at:
  "onAudioReady numFrames s =
     ((capture (mCurrentFrame s) numFrames s)\<lparr>mCurrentFrame := mCurrentFrame s + scast numFrames\<rparr>,
      clipLoop numFrames 0 (mixTracks (mCurrentFrame s) numFrames (mTracks s)
        (replicate (nat (sint (numFrames * kChannelCountOut))) 0)))"
  by (simp add: onAudioReady_def Let_def capture_clock capture_tracks)

section \<open>Concrete engines\<close>

lemma recordingA_eval:
  "recordingA =
     \<lparr>mPlayStream = Some \<lparr>state = Started, ready = []\<rparr>,
      mRecordStream = Some \<lparr>state = Started, ready = []\<rparr>, mTracks = [],
      mIsRecording = True,
      mRecordingFile = \<lparr>is_open = True, good = True, content = []\<rparr>,
      mRecordStartFrame = 0, mRecordedSampleCount = 0, mCurrentFrame = 0,
      mIsRunning = True\<rparr>"
  by (simp add: recordingA_def startRecording_def start_def openStreams_def startable_def
      workingDevice_def newAudioEngine_def ofstream_open_def onlyA_def Let_def)

lemma recordingB_eval:
  "recordingB =
     \<lparr>mPlayStream = Some \<lparr>state = Started, ready = []\<rparr>,
      mRecordStream = Some \<lparr>state = Started, ready = []\<rparr>, mTracks = [],
      mIsRecording = True,
      mRecordingFile = \<lparr>is_open = True, good = False, content = []\<rparr>,
      mRecordStartFrame = 5, mRecordedSampleCount = 0, mCurrentFrame = 0,
      mIsRunning = True\<rparr>"
  by (simp add: recordingB_def recordingA_eval startRecording_def ofstream_open_def Let_def)

lemma restarted_eval:
  "restarted =
     \<lparr>mPlayStream = Some \<lparr>state = Started, ready = []\<rparr>,
      mRecordStream = Some \<lparr>state = Started, ready = [5]\<rparr>, mTracks = [],
      mIsRecording = True,
      mRecordingFile = \<lparr>is_open = True, good = False, content = []\<rparr>,
      mRecordStartFrame = 5, mRecordedSampleCount = 0, mCurrentFrame = 10,
      mIsRunning = True\<rparr>"
  by (simp add: restarted_def recordingB_eval micInput_def seekToFrame_def)

lemma afterSession_eval:
  "afterSession =
     \<lparr>mPlayStream = Some \<lparr>state = Started, ready = []\<rparr>,
      mRecordStream = Some \<lparr>state = Started, ready = []\<rparr>, mTracks = [],
      mIsRecording = False,
      mRecordingFile = \<lparr>is_open = False, good = True, content = [1, 2, 3]\<rparr>,
      mRecordStartFrame = 7, mRecordedSampleCount = 3, mCurrentFrame = 10,
      mIsRunning = True\<rparr>"
  by (simp add: afterSession_def stopRecording_def onAudioReady_at capture_def stream_read_def
      ofstream_write_def ofstream_close_def micInput_def seekToFrame_def startRecording_def
      ofstream_open_def onlyA_def start_def openStreams_def startable_def workingDevice_def
      newAudioEngine_def word_sless_alt word_sle_eq Let_def)

section \<open>Loading a track\<close>

lemma convertLoop_length: "length (convertLoop data16 numSamples i trackData) = length trackData"
proof (induction data16 numSamples i trackData rule: convertLoop.induct)
  case (1 data16 numSamples i trackData)
  show ?case
  proof (cases "i <s numSamples")
    case True
    with "1.IH" [OF True] show ?thesis
      by (subst convertLoop.simps) simp
  next
    case False
    then show ?thesis by (subst convertLoop.simps) simp
  qed
qed

lemma convertLoop_below:
  "0 \<le> sint i \<Longrightarrow> int p < sint i \<Longrightarrow> convertLoop data16 numSamples i trackData ! p = trackData ! p"
proof (induction data16 numSamples i trackData rule: convertLoop.induct)
  case (1 data16 numSamples i trackData)
  show ?case
  proof (cases "i <s numSamples")
    case True
    then have s: "sint (i + 1) = sint i + 1"
      by (simp add: sint_succ32)
    have "convertLoop data16 numSamples i trackData ! p =
          convertLoop data16 numSamples (i + 1)
            (trackData[nat (sint i) := real_of_int (sint (data16 ! nat (sint i))) * scalar]) ! p"
      using True by (subst convertLoop.simps) simp
    also have "\<dots> = (trackData[nat (sint i) := real_of_int (sint (data16 ! nat (sint i))) * scalar]) ! p"
      using "1.prems" s by (intro "1.IH" [OF True]) simp_all
    also have "\<dots> = trackData ! p"
      using "1.prems" by simp
    finally show ?thesis .
  next
    case False
    then show ?thesis by (subst convertLoop.simps) simp
  qed
qed

lemma convertLoop_slot:
  "0 \<le> sint i \<Longrightarrow> sint i \<le> int p \<Longrightarrow> int p < sint numSamples \<Longrightarrow> p < length trackData \<Longrightarrow>
     convertLoop data16 numSamples i trackData ! p = real_of_int (sint (data16 ! p)) * scalar"
proof (induction data16 numSamples i trackData rule: convertLoop.induct)
  case (1 data16 numSamples i trackData)
  from "1.prems" have True: "i <s numSamples"
    by (simp add: word_sless_alt)
  then have s: "sint (i + 1) = sint i + 1"
    by (simp add: sint_succ32)
  define td where "td = trackData[nat (sint i) := real_of_int (sint (data16 ! nat (sint i))) * scalar]"
  have unfold: "convertLoop data16 numSamples i trackData = convertLoop data16 numSamples (i + 1) td"
    using True by (subst convertLoop.simps) (simp add: td_def)
  show ?case
  proof (cases "int p = sint i")
    case True
    then have p: "nat (sint i) = p"
      by simp
    have "convertLoop data16 numSamples (i + 1) td ! p = td ! p"
      using "1.prems" s True by (simp add: convertLoop_below)
    moreover have "td ! p = real_of_int (sint (data16 ! p)) * scalar"
      using "1.prems" by (simp add: td_def p)
    ultimately show ?thesis
      by (simp add: unfold)
  next
    case False
    with "1.prems" have gt: "sint i + 1 \<le> int p"
      by linarith
    have "convertLoop data16 numSamples (i + 1) td ! p = real_of_int (sint (data16 ! p)) * scalar"
      unfolding td_def using "1.prems" s gt by (intro "1.IH" [OF True]) simp_all
    then show ?thesis
      by (simp add: unfold)
  qed
qed

lemma convertLoop_map:
  assumes "0 \<le> sint numSamples" "length data16 = nat (sint numSamples)"
  shows "convertLoop data16 numSamples 0 (replicate (nat (sint numSamples)) 0) =
         map (\<lambda>d. real_of_int (sint d) * scalar) data16"
proof (rule nth_equalityI)
  show "length (convertLoop data16 numSamples 0 (replicate (nat (sint numSamples)) 0)) =
        length (map (\<lambda>d. real_of_int (sint d) * scalar) data16)"
    using assms by (simp add: convertLoop_length)
next
  fix p
  assume "p < length (convertLoop data16 numSamples 0 (replicate (nat (sint numSamples)) 0))"
  then have p: "p < nat (sint numSamples)"
    by (simp add: convertLoop_length)
  then have "int p < sint numSamples"
    by linarith
  with p assms show "convertLoop data16 numSamples 0 (replicate (nat (sint numSamples)) 0) ! p =
        map (\<lambda>d. real_of_int (sint d) * scalar) data16 ! p"
    by (simp add: convertLoop_slot)
qed

text \<open>
  Claim C9.  \<open>loadTrack\<close> with a non-negative count and that many input samples
  appends one track whose data are the input samples, each multiplied by the fixed
  scale \<open>1/32768\<close> and nothing else: no value is clamped.  Every converted sample lies
  in \<open>[-1, 1)\<close>; \<open>-32768\<close> becomes exactly \<open>-1\<close> and \<open>32767\<close> becomes
  \<open>32767/32768\<close>, just under 1.  The track keeps \<open>lengthFrames = |data|\<close>.
\<close>

theorem loadTrack_scales:
  assumes "0 <=s numSamples" "length data16 = nat (sint numSamples)"
  shows "let track = \<lparr>data = map (\<lambda>d. real_of_int (sint d) * (1 / 32768)) data16,
                        startFrame = startFrame', lengthFrames = numSamples\<rparr>
         in loadTrack trackId data16 numSamples startFrame' s = Inr (s\<lparr>mTracks := mTracks s @ [track]\<rparr>)
            \<and> length (data track) = nat (sint (lengthFrames track))
            \<and> (\<forall>k < length data16.
                  data track ! k = real_of_int (sint (data16 ! k)) / 32768
                  \<and> - 1 \<le> data track ! k \<and> data track ! k < 1
                  \<and> (data16 ! k = - 32768 \<longrightarrow> data track ! k = - 1)
                  \<and> (data16 ! k = 32767 \<longrightarrow> data track ! k = 32767 / 32768 \<and> data track ! k < 1))"
proof -
  from assms have n: "0 \<le> sint numSamples" "\<not> numSamples <s 0"
    by (simp_all add: word_sle_eq word_sless_alt)
  define track where "track = \<lparr>data = map (\<lambda>d. real_of_int (sint d) * (1 / 32768)) data16,
      startFrame = startFrame', lengthFrames = numSamples\<rparr>"
  have "loadTrack trackId data16 numSamples startFrame' s = Inr (s\<lparr>mTracks := mTracks s @ [track]\<rparr>)"
    using n assms(2) by (simp add: loadTrack_def Let_def convertLoop_map track_def scalar_def)
  moreover have "data track ! k = real_of_int (sint (data16 ! k)) / 32768
                 \<and> - 1 \<le> data track ! k \<and> data track ! k < 1
                 \<and> (data16 ! k = - 32768 \<longrightarrow> data track ! k = - 1)
                 \<and> (data16 ! k = 32767 \<longrightarrow> data track ! k = 32767 / 32768 \<and> data track ! k < 1)"
    if "k < length data16" for k
    using that sint16_bounds [of "data16 ! k"] by (simp add: track_def)
  moreover have "length (data track) = nat (sint (lengthFrames track))"
    using assms(2) by (simp add: track_def)
  ultimately show ?thesis
    unfolding Let_def track_def [symmetric] by blast
qed

theorem loadTrack_scales_witness:
  "0 <=s (4 :: int32_t) \<and> length extremes = nat (sint (4 :: int32_t))
   \<and> loadTrack ''clip'' extremes 4 100 newAudioEngine =
       Inr (newAudioEngine\<lparr>mTracks :=
              [\<lparr>data = [- 1, 32767 / 32768, 0, 1 / 2], startFrame = 100, lengthFrames = 4\<rparr>]\<rparr>)"
proof -
  have h: "0 <=s (4 :: int32_t)" "length extremes = nat (sint (4 :: int32_t))"
    by (simp_all add: extremes_def word_sle_eq)
  from loadTrack_scales [OF h, where trackId = "''clip''" and startFrame' = 100 and s = newAudioEngine] h show ?thesis
    by (simp add: Let_def extremes_def newAudioEngine_def)
qed

section \<open>Mixing one track\<close>

lemma mixLoop_length:
  "length (mixLoop track trackOffset numFrames i outputBuffer) = length outputBuffer"
proof (induction track trackOffset numFrames i outputBuffer rule: mixLoop.induct)
  case (1 track trackOffset numFrames i outputBuffer)
  show ?case
  proof (cases "i <s numFrames")
    case True
    with "1.IH" [OF True refl] show ?thesis
      by (subst mixLoop.simps) (simp add: Let_def)
  next
    case False
    then show ?thesis by (subst mixLoop.simps) simp
  qed
qed

lemma mixLoop_below:
  "0 \<le> sint i \<Longrightarrow> sint numFrames \<le> 2 ^ 30 \<Longrightarrow> int p < 2 * sint i \<Longrightarrow>
     mixLoop track trackOffset numFrames i outputBuffer ! p = outputBuffer ! p"
proof (induction track trackOffset numFrames i outputBuffer rule: mixLoop.induct)
  case (1 track trackOffset numFrames i outputBuffer)
  show ?case
  proof (cases "i <s numFrames")
    case True
    then have lt: "sint i < sint numFrames"
      by (simp add: word_sless_alt)
    with True have s: "sint (i + 1) = sint i + 1"
      by (simp add: sint_succ32)
    from lt "1.prems" have tw: "sint (i * 2) = 2 * sint i" "sint (i * 2 + 1) = 2 * sint i + 1"
      by (simp_all add: sint_twice)
    have ne: "nat (sint (i * 2)) \<noteq> p" "nat (sint (i * 2 + 1)) \<noteq> p"
      using "1.prems" tw by auto
    have "mixLoop track trackOffset numFrames i outputBuffer ! p =
          mixLoop track trackOffset numFrames (i + 1)
           (if 0 <=s trackOffset + scast i \<and> trackOffset + scast i <s scast (lengthFrames track) then
              (let sample = data track ! nat (sint (trackOffset + scast i));
                   out1 = outputBuffer[nat (sint (i * 2)) := outputBuffer ! nat (sint (i * 2)) + sample]
               in out1[nat (sint (i * 2 + 1)) := out1 ! nat (sint (i * 2 + 1)) + sample])
            else outputBuffer) ! p"
      using True by (subst mixLoop.simps) (simp add: Let_def)
    also have "\<dots> = (if 0 <=s trackOffset + scast i \<and> trackOffset + scast i <s scast (lengthFrames track) then
              (let sample = data track ! nat (sint (trackOffset + scast i));
                   out1 = outputBuffer[nat (sint (i * 2)) := outputBuffer ! nat (sint (i * 2)) + sample]
               in out1[nat (sint (i * 2 + 1)) := out1 ! nat (sint (i * 2 + 1)) + sample])
            else outputBuffer) ! p"
      using "1.prems" s by (intro "1.IH" [OF True refl]) simp_all
    also have "\<dots> = outputBuffer ! p"
      using ne by (simp add: Let_def)
    finally show ?thesis .
  next
    case False
    then show ?thesis by (subst mixLoop.simps) simp
  qed
qed

lemma mixLoop_frame:
  "0 \<le> sint i \<Longrightarrow> sint numFrames \<le> 2 ^ 30 \<Longrightarrow> 2 * sint numFrames \<le> int (length outputBuffer) \<Longrightarrow>
   sint i \<le> sint (j :: int32_t) \<Longrightarrow> sint j < sint numFrames \<Longrightarrow>
     mixLoop track trackOffset numFrames i outputBuffer ! nat (sint (j * 2)) =
       (if 0 <=s trackOffset + scast j \<and> trackOffset + scast j <s scast (lengthFrames track)
        then outputBuffer ! nat (sint (j * 2)) + data track ! nat (sint (trackOffset + scast j))
        else outputBuffer ! nat (sint (j * 2)))
   \<and> mixLoop track trackOffset numFrames i outputBuffer ! nat (sint (j * 2 + 1)) =
       (if 0 <=s trackOffset + scast j \<and> trackOffset + scast j <s scast (lengthFrames track)
        then outputBuffer ! nat (sint (j * 2 + 1)) + data track ! nat (sint (trackOffset + scast j))
        else outputBuffer ! nat (sint (j * 2 + 1)))"
proof (induction track trackOffset numFrames i outputBuffer rule: mixLoop.induct)
  case (1 track trackOffset numFrames i outputBuffer)
  from "1.prems" have lt: "sint i < sint numFrames" and True: "i <s numFrames"
    by (simp_all add: word_sless_alt)
  from True have s: "sint (i + 1) = sint i + 1"
    by (simp add: sint_succ32)
  from lt "1.prems" have tw: "sint (i * 2) = 2 * sint i" "sint (i * 2 + 1) = 2 * sint i + 1"
    by (simp_all add: sint_twice)
  from "1.prems" have "0 \<le> sint j" "sint j < 2 ^ 30"
    by linarith+
  then have twj: "sint (j * 2) = 2 * sint j" "sint (j * 2 + 1) = 2 * sint j + 1"
    by (simp_all add: sint_twice)
  define out' where "out' =
     (if 0 <=s trackOffset + scast i \<and> trackOffset + scast i <s scast (lengthFrames track) then
        (let sample = data track ! nat (sint (trackOffset + scast i));
             out1 = outputBuffer[nat (sint (i * 2)) := outputBuffer ! nat (sint (i * 2)) + sample]
         in out1[nat (sint (i * 2 + 1)) := out1 ! nat (sint (i * 2 + 1)) + sample])
      else outputBuffer)"
  have len': "length out' = length outputBuffer"
    by (simp add: out'_def Let_def)
  have unfold: "mixLoop track trackOffset numFrames i outputBuffer =
                mixLoop track trackOffset numFrames (i + 1) out'"
    using True by (subst mixLoop.simps) (simp add: Let_def out'_def)
  show ?case
  proof (cases "sint j = sint i")
    case True
    then have ji: "j = i"
      by (rule signed_word_eqI)
    have inl: "nat (2 * sint i) < length outputBuffer" "nat (2 * sint i + 1) < length outputBuffer"
      using lt "1.prems" by linarith+
    have ne: "nat (2 * sint i) \<noteq> nat (2 * sint i + 1)"
      using "1.prems" by linarith
    have here: "out' ! nat (2 * sint i) =
        (if 0 <=s trackOffset + scast i \<and> trackOffset + scast i <s scast (lengthFrames track)
         then outputBuffer ! nat (2 * sint i) + data track ! nat (sint (trackOffset + scast i))
         else outputBuffer ! nat (2 * sint i))"
      "out' ! nat (2 * sint i + 1) =
        (if 0 <=s trackOffset + scast i \<and> trackOffset + scast i <s scast (lengthFrames track)
         then outputBuffer ! nat (2 * sint i + 1) + data track ! nat (sint (trackOffset + scast i))
         else outputBuffer ! nat (2 * sint i + 1))"
      using inl ne by (simp_all add: out'_def Let_def tw)
    have keep: "mixLoop track trackOffset numFrames (i + 1) out' ! nat (2 * sint i) = out' ! nat (2 * sint i)"
      "mixLoop track trackOffset numFrames (i + 1) out' ! nat (2 * sint i + 1) = out' ! nat (2 * sint i + 1)"
      using "1.prems" s by (simp_all add: mixLoop_below)
    show ?thesis
      unfolding unfold ji tw keep here by simp
  next
    case False
    with "1.prems" have gt: "sint i + 1 \<le> sint j"
      by simp
    have ne: "nat (2 * sint i) \<noteq> nat (2 * sint j)" "nat (2 * sint i + 1) \<noteq> nat (2 * sint j)"
      "nat (2 * sint i) \<noteq> nat (2 * sint j + 1)" "nat (2 * sint i + 1) \<noteq> nat (2 * sint j + 1)"
      using gt "1.prems" by linarith+
    have same: "out' ! nat (2 * sint j) = outputBuffer ! nat (2 * sint j)"
      "out' ! nat (2 * sint j + 1) = outputBuffer ! nat (2 * sint j + 1)"
      using ne by (simp_all add: out'_def Let_def tw)
    have "mixLoop track trackOffset numFrames (i + 1) out' ! nat (sint (j * 2)) =
       (if 0 <=s trackOffset + scast j \<and> trackOffset + scast j <s scast (lengthFrames track)
        then out' ! nat (sint (j * 2)) + data track ! nat (sint (trackOffset + scast j))
        else out' ! nat (sint (j * 2)))
      \<and> mixLoop track trackOffset numFrames (i + 1) out' ! nat (sint (j * 2 + 1)) =
       (if 0 <=s trackOffset + scast j \<and> trackOffset + scast j <s scast (lengthFrames track)
        then out' ! nat (sint (j * 2 + 1)) + data track ! nat (sint (trackOffset + scast j))
        else out' ! nat (sint (j * 2 + 1)))"
      unfolding out'_def
      using "1.prems" s gt len' [unfolded out'_def]
      by (intro "1.IH" [OF True refl]) simp_all
    then show ?thesis
      unfolding unfold twj using same by (simp add: out'_def [symmetric])
  qed
qed

text \<open>
  Mixing one track into a buffer of \<open>numFrames * 2\<close> slots, frame by frame: slots
  \<open>2 i\<close> and \<open>2 i + 1\<close> receive \<open>data[sampleIndex]\<close> when
  \<open>0 \<le> sampleIndex < lengthFrames\<close> and stay as they were otherwise.  The outer overlap
  test of the code never hides a frame that the inner test would accept.
\<close>

lemma mixTrack_slots:
  fixes track :: "'a::plus Track"
  assumes i: "0 <=s i" "i <s numFrames"
    and n: "sint numFrames < 2 ^ 30"
    and len: "length outputBuffer = nat (sint (numFrames * kChannelCountOut))"
  shows "let offset = currentFrame - scast (startFrame track);
             sampleIndex = offset + scast i;
             l = nat (sint (i * 2));
             r = nat (sint (i * 2 + 1));
             out = mixTrack currentFrame numFrames track outputBuffer
         in length out = length outputBuffer
            \<and> l = 2 * nat (sint i) \<and> r = 2 * nat (sint i) + 1 \<and> r < length out
            \<and> (if 0 <=s sampleIndex \<and> sampleIndex <s scast (lengthFrames track)
                then out ! l = outputBuffer ! l + data track ! nat (sint sampleIndex)
                     \<and> out ! r = outputBuffer ! r + data track ! nat (sint sampleIndex)
                else out ! l = outputBuffer ! l \<and> out ! r = outputBuffer ! r)
            \<and> (- (2 ^ 62) \<le> sint currentFrame \<and> sint currentFrame < 2 ^ 62 \<longrightarrow>
                  sint sampleIndex = sint currentFrame - sint (startFrame track) + sint i)"
proof -
  define offset where "offset = currentFrame - scast (startFrame track)"
  define sampleIndex where "sampleIndex = offset + scast i"
  define inside where "inside \<longleftrightarrow> 0 <=s sampleIndex \<and> sampleIndex <s scast (lengthFrames track)"
  from i have i': "0 \<le> sint i" "sint i < sint numFrames"
    by (simp_all add: word_sle_eq word_sless_alt)
  with n have tw: "sint (i * 2) = 2 * sint i" "sint (i * 2 + 1) = 2 * sint i + 1"
    by (simp_all add: sint_twice)
  from i' n have twn: "sint (numFrames * 2) = 2 * sint numFrames"
    by (simp add: sint_twice)
  have len': "int (length outputBuffer) = 2 * sint numFrames"
    using len twn i' by (simp add: kChannelCountOut_def)
  have L: "length (mixTrack currentFrame numFrames track outputBuffer) = length outputBuffer"
    by (simp add: mixTrack_def Let_def mixLoop_length)
  have slots: "nat (sint (i * 2)) = 2 * nat (sint i)" "nat (sint (i * 2 + 1)) = 2 * nat (sint i) + 1"
    "nat (sint (i * 2 + 1)) < length outputBuffer"
    using tw i' len' by linarith+
  have vals: "mixTrack currentFrame numFrames track outputBuffer ! nat (sint (i * 2)) =
        (if inside then outputBuffer ! nat (sint (i * 2)) + data track ! nat (sint sampleIndex)
         else outputBuffer ! nat (sint (i * 2)))
      \<and> mixTrack currentFrame numFrames track outputBuffer ! nat (sint (i * 2 + 1)) =
        (if inside then outputBuffer ! nat (sint (i * 2 + 1)) + data track ! nat (sint sampleIndex)
         else outputBuffer ! nat (sint (i * 2 + 1)))"
  proof (cases "offset <s scast (lengthFrames track) \<and> 0 <s offset + scast numFrames")
    case True
    then have "mixTrack currentFrame numFrames track outputBuffer =
               mixLoop track offset numFrames 0 outputBuffer"
      by (simp add: mixTrack_def offset_def)
    moreover have "0 \<le> sint (0 :: int32_t)" "sint (0 :: int32_t) \<le> sint i"
      using i' by simp_all
    ultimately show ?thesis
      using mixLoop_frame [of 0 numFrames outputBuffer i track offset] i' n len'
      by (simp add: inside_def sampleIndex_def)
  next
    case False
    then have same: "mixTrack currentFrame numFrames track outputBuffer = outputBuffer"
      by (auto simp: mixTrack_def offset_def Let_def)
    from False overlap_guard [OF i, of offset "lengthFrames track"] have "\<not> inside"
      by (auto simp: inside_def sampleIndex_def)
    with same show ?thesis by simp
  qed
  have exact: "sint sampleIndex = sint currentFrame - sint (startFrame track) + sint i"
    if "- (2 ^ 62) \<le> sint currentFrame \<and> sint currentFrame < 2 ^ 62"
  proof -
    note b = sint32_bounds [of "startFrame track"] sint32_bounds [of i]
    have "sint offset = sint currentFrame - sint (startFrame track)"
      unfolding offset_def using that b by (subst sint_sub64) (simp_all add: sint_scast64)
    then show ?thesis
      unfolding sampleIndex_def using that b by (subst sint_add64) (simp_all add: sint_scast64)
  qed
  show ?thesis
    unfolding Let_def offset_def [symmetric] sampleIndex_def [symmetric] inside_def [symmetric]
    using L slots vals exact by simp
qed

text \<open>
  The rest of the overlap example: a track with \<open>startFrame = 100\<close> and
  \<open>lengthFrames = 50\<close> leaves the buffer as it is for every window inside \<open>[0, 100)\<close>
  and for every window that begins at frame 150 or later.
\<close>

lemma mixTrack_outside_example:
  fixes track :: "'a::plus Track"
  assumes t: "startFrame track = 100" "lengthFrames track = 50"
  shows "0 <=s currentFrame \<Longrightarrow> 0 <=s numFrames \<Longrightarrow> sint currentFrame + sint numFrames \<le> 100 \<Longrightarrow>
           mixTrack currentFrame numFrames track outputBuffer = outputBuffer"
    and "150 <=s currentFrame \<Longrightarrow> mixTrack currentFrame numFrames track outputBuffer = outputBuffer"
proof -
  have up: "sint currentFrame < 2 ^ 63"
    using sint_lt [of currentFrame] by simp
  {
    assume a: "0 <=s currentFrame" "0 <=s numFrames" "sint currentFrame + sint numFrames \<le> 100"
    then have c: "0 \<le> sint currentFrame" "0 \<le> sint numFrames"
      by (simp_all add: word_sle_eq)
    have off: "sint (currentFrame - 100) = sint currentFrame - 100"
      using c up by (subst sint_sub64) simp_all
    have "sint (currentFrame - 100 + scast numFrames) = sint currentFrame - 100 + sint numFrames"
      using c a(3) by (subst sint_add64) (simp_all add: off sint_scast64)
    with a(3) have "\<not> 0 <s currentFrame - 100 + scast numFrames"
      by (simp add: word_sless_alt)
    then show "mixTrack currentFrame numFrames track outputBuffer = outputBuffer"
      by (simp add: mixTrack_def t)
  }
  {
    assume "150 <=s currentFrame"
    then have c: "150 \<le> sint currentFrame"
      by (simp add: word_sle_eq)
    have off: "sint (currentFrame - 100) = sint currentFrame - 100"
      using c up by (subst sint_sub64) simp_all
    with c have "\<not> currentFrame - 100 <s 50"
      by (simp add: word_sless_alt)
    then show "mixTrack currentFrame numFrames track outputBuffer = outputBuffer"
      by (simp add: mixTrack_def t)
  }
qed

section \<open>Mixing the store\<close>

lemma mixTracks_length:
  "length (mixTracks currentFrame numFrames tracks outputBuffer) = length outputBuffer"
  by (induction tracks arbitrary: outputBuffer) (simp_all add: mixTrack_def Let_def mixLoop_length)

lemma mixTracks_append:
  "mixTracks currentFrame numFrames (xs @ ys) outputBuffer =
     mixTracks currentFrame numFrames ys (mixTracks currentFrame numFrames xs outputBuffer)"
  by (induction xs arbitrary: outputBuffer) simp_all

text \<open>
  All tracks of the store, mixed in insertion order: each slot of frame \<open>i\<close> ends as
  its start value plus the samples of the tracks that cover the frame.
\<close>

lemma mixTracks_slot_sum:
  fixes tracks :: "'a::monoid_add Track list"
  assumes i: "0 <=s i" "i <s numFrames"
    and n: "sint numFrames < 2 ^ 30"
  shows "length outputBuffer = nat (sint (numFrames * kChannelCountOut)) \<Longrightarrow>
     mixTracks currentFrame numFrames tracks outputBuffer ! nat (sint (i * 2)) =
       outputBuffer ! nat (sint (i * 2))
       + (\<Sum>t\<leftarrow>tracks.
            if 0 <=s currentFrame - scast (startFrame t) + scast i
               \<and> currentFrame - scast (startFrame t) + scast i <s scast (lengthFrames t)
            then data t ! nat (sint (currentFrame - scast (startFrame t) + scast i)) else 0)
     \<and> mixTracks currentFrame numFrames tracks outputBuffer ! nat (sint (i * 2 + 1)) =
       outputBuffer ! nat (sint (i * 2 + 1))
       + (\<Sum>t\<leftarrow>tracks.
            if 0 <=s currentFrame - scast (startFrame t) + scast i
               \<and> currentFrame - scast (startFrame t) + scast i <s scast (lengthFrames t)
            then data t ! nat (sint (currentFrame - scast (startFrame t) + scast i)) else 0)"
proof (induction tracks arbitrary: outputBuffer)
  case Nil
  then show ?case by simp
next
  case (Cons t tracks)
  define c where "c =
     (if 0 <=s currentFrame - scast (startFrame t) + scast i
         \<and> currentFrame - scast (startFrame t) + scast i <s scast (lengthFrames t)
      then data t ! nat (sint (currentFrame - scast (startFrame t) + scast i)) else 0)"
  define mixed where "mixed = mixTrack currentFrame numFrames t outputBuffer"
  note s = mixTrack_slots [OF i n Cons.prems, of currentFrame t, unfolded Let_def,
      folded mixed_def]
  from s have len: "length mixed = nat (sint (numFrames * kChannelCountOut))"
    using Cons.prems by (simp only:)
  from s have v: "mixed ! nat (sint (i * 2)) = outputBuffer ! nat (sint (i * 2)) + c"
    "mixed ! nat (sint (i * 2 + 1)) = outputBuffer ! nat (sint (i * 2 + 1)) + c"
    by (auto simp: c_def split: if_splits)
  from Cons.IH [OF len] show ?case
    unfolding mixTracks.simps mixed_def [symmetric] list.map sum_list.Cons c_def [symmetric]
    by (simp only: v add.assoc)
qed

text \<open>
  Claim C1.  In every callback, with clock value \<open>currentFrame\<close> and buffer length
  \<open>numFrames\<close>, the buffer that is handed to the soft clipper is the zeroed buffer with
  every track of the store mixed in, in insertion order.  For every track of the store
  and every frame index \<open>i\<close> with \<open>0 \<le> i < numFrames\<close>: with
  \<open>offset = currentFrame - startFrame\<close> and \<open>sampleIndex = offset + i\<close>, the track's turn
  adds \<open>data[sampleIndex]\<close> to the left slot \<open>2 i\<close> and to the right slot \<open>2 i + 1\<close> of
  the buffer as the tracks before it have left it, exactly when
  \<open>0 \<le> sampleIndex < lengthFrames\<close>, and leaves both slots as they were otherwise.  In
  total each of the two slots holds the sum of \<open>data[sampleIndex]\<close> over the tracks
  that cover frame \<open>i\<close>, and nothing from any other track.  The track satisfies the
  invariant \<open>lengthFrames = |data|\<close>, so every read is inside the track's data.
\<close>

theorem onAudioReady_mixes_each_track:
  assumes tr: "mTracks s = pre @ track # post"
    and i: "0 <=s i" "i <s numFrames"
    and n: "sint numFrames < 2 ^ 30"
    and wf: "length (data track) = nat (sint (lengthFrames track))"
  shows "let currentFrame = mCurrentFrame s;
             zeros = replicate (nat (sint (numFrames * kChannelCountOut))) 0;
             before = mixTracks currentFrame numFrames pre zeros;
             after = mixTrack currentFrame numFrames track before;
             mixed = mixTracks currentFrame numFrames (mTracks s) zeros;
             offset = currentFrame - scast (startFrame track);
             sampleIndex = offset + scast i;
             l = nat (sint (i * 2));
             r = nat (sint (i * 2 + 1))
         in snd (onAudioReady numFrames s) = clipLoop numFrames 0 mixed
            \<and> mixed = mixTracks currentFrame numFrames post after
            \<and> length before = 2 * nat (sint numFrames)
            \<and> length after = length before \<and> length mixed = length before
            \<and> l = 2 * nat (sint i) \<and> r = 2 * nat (sint i) + 1 \<and> r < length after
            \<and> (if 0 <=s sampleIndex \<and> sampleIndex <s scast (lengthFrames track)
                then nat (sint sampleIndex) < length (data track)
                     \<and> after ! l = before ! l + data track ! nat (sint sampleIndex)
                     \<and> after ! r = before ! r + data track ! nat (sint sampleIndex)
                else after ! l = before ! l \<and> after ! r = before ! r)
            \<and> (- (2 ^ 62) \<le> sint currentFrame \<and> sint currentFrame < 2 ^ 62 \<longrightarrow>
                  sint sampleIndex = sint currentFrame - sint (startFrame track) + sint i)
            \<and> mixed ! l =
                (\<Sum>t\<leftarrow>mTracks s.
                   if 0 <=s currentFrame - scast (startFrame t) + scast i
                      \<and> currentFrame - scast (startFrame t) + scast i <s scast (lengthFrames t)
                   then data t ! nat (sint (currentFrame - scast (startFrame t) + scast i)) else 0)
            \<and> mixed ! r =
                (\<Sum>t\<leftarrow>mTracks s.
                   if 0 <=s currentFrame - scast (startFrame t) + scast i
                      \<and> currentFrame - scast (startFrame t) + scast i <s scast (lengthFrames t)
                   then data t ! nat (sint (currentFrame - scast (startFrame t) + scast i)) else 0)"
proof -
  define currentFrame where "currentFrame = mCurrentFrame s"
  define zeros :: "real list" where "zeros = replicate (nat (sint (numFrames * kChannelCountOut))) 0"
  define before where "before = mixTracks currentFrame numFrames pre zeros"
  define after where "after = mixTrack currentFrame numFrames track before"
  define mixed where "mixed = mixTracks currentFrame numFrames (mTracks s) zeros"
  define sampleIndex where "sampleIndex = currentFrame - scast (startFrame track) + scast i"
  from i have i': "0 \<le> sint i" "sint i < sint numFrames"
    by (simp_all add: word_sle_eq word_sless_alt)
  with n have "sint (numFrames * 2) = 2 * sint numFrames"
    by (simp add: sint_twice)
  with i' have two: "nat (sint (numFrames * kChannelCountOut)) = 2 * nat (sint numFrames)"
    by (simp add: kChannelCountOut_def)
  have lz: "length zeros = nat (sint (numFrames * kChannelCountOut))"
    by (simp add: zeros_def)
  have lb: "length before = nat (sint (numFrames * kChannelCountOut))"
    by (simp add: before_def mixTracks_length lz)
  have lm: "length mixed = nat (sint (numFrames * kChannelCountOut))"
    by (simp add: mixed_def mixTracks_length lz)
  have out: "snd (onAudioReady numFrames s) = clipLoop numFrames 0 mixed"
    by (simp add: onAudioReady_at mixed_def currentFrame_def zeros_def)
  have split: "mixed = mixTracks currentFrame numFrames post after"
    by (simp add: mixed_def tr mixTracks_append after_def before_def)
  note step = mixTrack_slots [OF i n lb, of currentFrame track, unfolded Let_def,
      folded after_def sampleIndex_def]
  have idx: "nat (sint sampleIndex) < length (data track)"
    if "0 <=s sampleIndex \<and> sampleIndex <s scast (lengthFrames track)"
    using that wf by (simp add: word_sle_eq word_sless_alt sint_scast64)
  have z: "zeros ! nat (sint (i * 2)) = 0" "zeros ! nat (sint (i * 2 + 1)) = 0"
    using step lb by (simp_all add: zeros_def)
  note total = mixTracks_slot_sum [OF i n lz, of currentFrame "mTracks s",
      folded mixed_def, unfolded z add_0_left]
  from step have la: "length after = length before"
    by (elim conjE) assumption
  from step have sl: "nat (sint (i * 2)) = 2 * nat (sint i)"
    by (elim conjE) assumption
  from step have sr: "nat (sint (i * 2 + 1)) = 2 * nat (sint i) + 1"
    by (elim conjE) assumption
  from step have sb: "nat (sint (i * 2 + 1)) < length after"
    by (elim conjE) assumption
  from step have exact: "- (2 ^ 62) \<le> sint currentFrame \<and> sint currentFrame < 2 ^ 62 \<longrightarrow>
        sint sampleIndex = sint currentFrame - sint (startFrame track) + sint i"
    by (elim conjE) assumption
  from step have vals:
    "if 0 <=s sampleIndex \<and> sampleIndex <s scast (lengthFrames track)
     then after ! nat (sint (i * 2)) = before ! nat (sint (i * 2)) + data track ! nat (sint sampleIndex)
          \<and> after ! nat (sint (i * 2 + 1)) = before ! nat (sint (i * 2 + 1)) + data track ! nat (sint sampleIndex)
     else after ! nat (sint (i * 2)) = before ! nat (sint (i * 2))
          \<and> after ! nat (sint (i * 2 + 1)) = before ! nat (sint (i * 2 + 1))"
    by (elim conjE) assumption
  have vals': "if 0 <=s sampleIndex \<and> sampleIndex <s scast (lengthFrames track)
     then nat (sint sampleIndex) < length (data track)
          \<and> after ! nat (sint (i * 2)) = before ! nat (sint (i * 2)) + data track ! nat (sint sampleIndex)
          \<and> after ! nat (sint (i * 2 + 1)) = before ! nat (sint (i * 2 + 1)) + data track ! nat (sint sampleIndex)
     else after ! nat (sint (i * 2)) = before ! nat (sint (i * 2))
          \<and> after ! nat (sint (i * 2 + 1)) = before ! nat (sint (i * 2 + 1))"
  proof (cases "0 <=s sampleIndex \<and> sampleIndex <s scast (lengthFrames track)")
    case True
    with vals idx show ?thesis by (simp only: if_True simp_thms)
  next
    case False
    with vals show ?thesis by (simp only: if_False)
  qed
  from lb two have lb2: "length before = 2 * nat (sint numFrames)"
    by (simp only:)
  from lm lb have lm2: "length mixed = length before"
    by (simp only:)
  show ?thesis
    unfolding Let_def currentFrame_def [symmetric] zeros_def [symmetric] before_def [symmetric]
      after_def [symmetric] mixed_def [symmetric] sampleIndex_def [symmetric]
    by (intro conjI out split lb2 la lm2 sl sr sb vals' exact total [THEN conjunct1] total [THEN conjunct2])
qed

text \<open>
  The straddling window of the example: \<open>currentFrame = 80\<close>, \<open>numFrames = 40\<close>, the ramp
  at frame 100 behind a track that ended long ago.  Frame 25 of the buffer (slots 50
  and 51) receives sample 5 of the ramp and nothing else.
\<close>

theorem onAudioReady_mixes_each_track_witness:
  "mTracks overlapEngine = [halfTrack] @ rampTrack # []
   \<and> 0 <=s (25 :: int32_t) \<and> 25 <s (40 :: int32_t) \<and> sint (40 :: int32_t) < 2 ^ 30
   \<and> length (data rampTrack) = nat (sint (lengthFrames rampTrack))
   \<and> snd (onAudioReady 40 overlapEngine) =
       clipLoop 40 0 (mixTracks 80 40 [halfTrack, rampTrack] (replicate 80 0))
   \<and> mixTracks 80 40 [halfTrack, rampTrack] (replicate 80 0) ! 50 = 5 / 64
   \<and> mixTracks 80 40 [halfTrack, rampTrack] (replicate 80 0) ! 51 = 5 / 64"
proof -
  have e: "mTracks overlapEngine = [halfTrack, rampTrack]" "mCurrentFrame overlapEngine = 80"
    by (simp_all add: overlapEngine_def seekToFrame_def)
  have h: "mTracks overlapEngine = [halfTrack] @ rampTrack # []"
    "0 <=s (25 :: int32_t)" "25 <s (40 :: int32_t)" "sint (40 :: int32_t) < 2 ^ 30"
    "length (data rampTrack) = nat (sint (lengthFrames rampTrack))"
    by (simp_all add: e rampTrack_def word_sle_eq word_sless_alt)
  have z: "replicate (nat (sint (40 * kChannelCountOut))) (0 :: real) = replicate 80 0"
    by (simp add: kChannelCountOut_def)
  note t = onAudioReady_mixes_each_track [OF h, unfolded Let_def e z]
  from t have a: "snd (onAudioReady 40 overlapEngine) =
       clipLoop 40 0 (mixTracks 80 40 [halfTrack, rampTrack] (replicate 80 0))"
    by (elim conjE) assumption
  from t have l: "mixTracks 80 40 [halfTrack, rampTrack] (replicate 80 0) ! nat (sint (25 * 2 :: int32_t)) =
      (\<Sum>t\<leftarrow>[halfTrack, rampTrack].
         if 0 <=s (80 :: int64_t) - scast (startFrame t) + scast (25 :: int32_t)
            \<and> (80 :: int64_t) - scast (startFrame t) + scast (25 :: int32_t) <s scast (lengthFrames t)
         then data t ! nat (sint ((80 :: int64_t) - scast (startFrame t) + scast (25 :: int32_t))) else 0)"
    by (elim conjE) assumption
  from t have r: "mixTracks 80 40 [halfTrack, rampTrack] (replicate 80 0) ! nat (sint (25 * 2 + 1 :: int32_t)) =
      (\<Sum>t\<leftarrow>[halfTrack, rampTrack].
         if 0 <=s (80 :: int64_t) - scast (startFrame t) + scast (25 :: int32_t)
            \<and> (80 :: int64_t) - scast (startFrame t) + scast (25 :: int32_t) <s scast (lengthFrames t)
         then data t ! nat (sint ((80 :: int64_t) - scast (startFrame t) + scast (25 :: int32_t))) else 0)"
    by (elim conjE) assumption
  from l r have b: "mixTracks 80 40 [halfTrack, rampTrack] (replicate 80 0) ! 50 = 5 / 64"
    "mixTracks 80 40 [halfTrack, rampTrack] (replicate 80 0) ! 51 = 5 / 64"
    by (simp_all add: halfTrack_def rampTrack_def word_sle_eq word_sless_alt)
  from h a b show ?thesis
    by blast
qed

section \<open>Soft clipping\<close>

lemma clipLoop_length: "length (clipLoop numFrames i outputBuffer) = length outputBuffer"
proof (induction numFrames i outputBuffer rule: clipLoop.induct)
  case (1 numFrames i outputBuffer)
  show ?case
  proof (cases "i <s numFrames * kChannelCountOut")
    case True
    with "1.IH" [OF True refl] show ?thesis
      by (subst clipLoop.simps) (simp add: Let_def)
  next
    case False
    then show ?thesis by (subst clipLoop.simps) simp
  qed
qed

lemma clipLoop_below:
  "0 \<le> sint i \<Longrightarrow> int p < sint i \<Longrightarrow> clipLoop numFrames i outputBuffer ! p = outputBuffer ! p"
proof (induction numFrames i outputBuffer rule: clipLoop.induct)
  case (1 numFrames i outputBuffer)
  show ?case
  proof (cases "i <s numFrames * kChannelCountOut")
    case True
    then have s: "sint (i + 1) = sint i + 1"
      by (simp add: sint_succ32)
    define out' where "out' =
      (if outputBuffer ! nat (sint i) > 1 \<or> outputBuffer ! nat (sint i) < - 1
       then outputBuffer[nat (sint i) := tanh (outputBuffer ! nat (sint i))] else outputBuffer)"
    have unfold: "clipLoop numFrames i outputBuffer = clipLoop numFrames (i + 1) out'"
      using True by (subst clipLoop.simps) (simp add: Let_def out'_def)
    have "clipLoop numFrames (i + 1) out' ! p = out' ! p"
      unfolding out'_def using "1.prems" s by (intro "1.IH" [OF True refl]) simp_all
    moreover have "out' ! p = outputBuffer ! p"
      using "1.prems" by (simp add: out'_def)
    ultimately show ?thesis
      by (simp add: unfold)
  next
    case False
    then show ?thesis by (subst clipLoop.simps) simp
  qed
qed

lemma clipLoop_slot:
  "0 \<le> sint i \<Longrightarrow> sint i \<le> int p \<Longrightarrow> int p < sint (numFrames * kChannelCountOut) \<Longrightarrow>
   p < length outputBuffer \<Longrightarrow>
     clipLoop numFrames i outputBuffer ! p =
       (if outputBuffer ! p > 1 \<or> outputBuffer ! p < - 1 then tanh (outputBuffer ! p)
        else outputBuffer ! p)"
proof (induction numFrames i outputBuffer rule: clipLoop.induct)
  case (1 numFrames i outputBuffer)
  from "1.prems" have True: "i <s numFrames * kChannelCountOut"
    by (simp add: word_sless_alt)
  then have s: "sint (i + 1) = sint i + 1"
    by (simp add: sint_succ32)
  define out' where "out' =
    (if outputBuffer ! nat (sint i) > 1 \<or> outputBuffer ! nat (sint i) < - 1
     then outputBuffer[nat (sint i) := tanh (outputBuffer ! nat (sint i))] else outputBuffer)"
  have len': "length out' = length outputBuffer"
    by (simp add: out'_def)
  have unfold: "clipLoop numFrames i outputBuffer = clipLoop numFrames (i + 1) out'"
    using True by (subst clipLoop.simps) (simp add: Let_def out'_def)
  show ?case
  proof (cases "int p = sint i")
    case True
    then have p: "nat (sint i) = p"
      by simp
    have "clipLoop numFrames (i + 1) out' ! p = out' ! p"
      using "1.prems" s True by (simp add: clipLoop_below)
    moreover have "out' ! p =
       (if outputBuffer ! p > 1 \<or> outputBuffer ! p < - 1 then tanh (outputBuffer ! p)
        else outputBuffer ! p)"
      using "1.prems" by (simp add: out'_def p)
    ultimately show ?thesis
      by (simp add: unfold)
  next
    case False
    with "1.prems" have ne: "nat (sint i) \<noteq> p" and gt: "sint i + 1 \<le> int p"
      by linarith+
    have "clipLoop numFrames (i + 1) out' ! p =
       (if out' ! p > 1 \<or> out' ! p < - 1 then tanh (out' ! p) else out' ! p)"
      unfolding out'_def
      using "1.prems" s gt len' [unfolded out'_def]
      by (intro "1.IH" [OF True refl]) simp_all
    moreover have "out' ! p = outputBuffer ! p"
      using ne by (simp add: out'_def)
    ultimately show ?thesis
      by (simp add: unfold)
  qed
qed

lemma clip_magnitude:
  fixes x :: real
  shows "(x > 1 \<or> x < - 1) \<longleftrightarrow> \<bar>x\<bar> > 1"
  by linarith

text \<open>
  Claim C2.  The buffer that \<open>onAudioReady\<close> returns is the mixed buffer (all tracks
  summed into the zeroed buffer) passed through the soft clipper: a slot whose
  magnitude is at most 1.0 is unchanged, a slot whose magnitude exceeds 1.0 holds its
  hyperbolic tangent; in particular a summed value of exactly 2.0 becomes \<open>tanh 2\<close>.
\<close>

theorem softClip_after_mix:
  assumes "0 <=s numFrames" "sint numFrames < 2 ^ 30"
  shows "let mixed = mixTracks (mCurrentFrame s) numFrames (mTracks s)
                 (replicate (nat (sint (numFrames * kChannelCountOut))) 0);
             out = snd (onAudioReady numFrames s)
         in length out = 2 * nat (sint numFrames)
            \<and> length mixed = length out
            \<and> (\<forall>p < length out.
                  (\<bar>mixed ! p\<bar> \<le> 1 \<longrightarrow> out ! p = mixed ! p)
                  \<and> (\<bar>mixed ! p\<bar> > 1 \<longrightarrow> out ! p = tanh (mixed ! p))
                  \<and> (mixed ! p = 2 \<longrightarrow> out ! p = tanh 2))"
proof -
  define mixed where "mixed = mixTracks (mCurrentFrame s) numFrames (mTracks s)
                 (replicate (nat (sint (numFrames * kChannelCountOut))) 0)"
  have out: "snd (onAudioReady numFrames s) = clipLoop numFrames 0 mixed"
    by (simp add: onAudioReady_at mixed_def)
  from assms have "0 \<le> sint numFrames"
    by (simp add: word_sle_eq)
  with assms have "sint (numFrames * kChannelCountOut) = 2 * sint numFrames"
    by (simp add: kChannelCountOut_def sint_twice)
  then have two: "nat (sint (numFrames * kChannelCountOut)) = 2 * nat (sint numFrames)"
    by simp
  have lm: "length mixed = nat (sint (numFrames * kChannelCountOut))"
    by (simp add: mixed_def mixTracks_length)
  have slot: "clipLoop numFrames 0 mixed ! p =
      (if \<bar>mixed ! p\<bar> > 1 then tanh (mixed ! p) else mixed ! p)" if "p < length mixed" for p
  proof -
    from that lm have "int p < sint (numFrames * kChannelCountOut)"
      by linarith
    with that show ?thesis
      by (simp add: clipLoop_slot clip_magnitude)
  qed
  show ?thesis
    unfolding Let_def mixed_def [symmetric] out
    using lm slot two by (auto simp: clipLoop_length)
qed

lemma mixTrack_halfTrack: "mixTrack 0 1 halfTrack [a, b] = [a + 1 / 2, b + 1 / 2]"
proof -
  have "mixTrack 0 1 halfTrack [a, b] = mixLoop halfTrack 0 1 0 [a, b]"
    by (simp add: mixTrack_def halfTrack_def word_sless_alt)
  also have "\<dots> = mixLoop halfTrack 0 1 1 [a + 1 / 2, b + 1 / 2]"
    by (subst mixLoop.simps) (simp add: halfTrack_def word_sless_alt word_sle_eq Let_def)
  also have "\<dots> = [a + 1 / 2, b + 1 / 2]"
    by (subst mixLoop.simps) (simp add: word_sless_alt)
  finally show ?thesis .
qed

lemma loudEngine_mixed:
  "mixTracks (mCurrentFrame loudEngine) 1 (mTracks loudEngine)
     (replicate (nat (sint (1 * kChannelCountOut))) 0) = [2, 2]"
  by (simp add: loudEngine_def newAudioEngine_def kChannelCountOut_def mixTrack_halfTrack
      numeral_2_eq_2)

theorem softClip_after_mix_witness:
  "0 <=s (1 :: int32_t) \<and> sint (1 :: int32_t) < 2 ^ 30
   \<and> mixTracks (mCurrentFrame loudEngine) 1 (mTracks loudEngine)
        (replicate (nat (sint (1 * kChannelCountOut))) 0) = [2, 2]
   \<and> snd (onAudioReady 1 loudEngine) ! 0 = tanh 2 \<and> snd (onAudioReady 1 loudEngine) ! 1 = tanh 2
   \<and> length (snd (onAudioReady 1 loudEngine)) = 2"
proof -
  have h: "0 <=s (1 :: int32_t)" "sint (1 :: int32_t) < 2 ^ 30"
    by (simp_all add: word_sle_eq)
  note t = softClip_after_mix [OF h, of loudEngine, unfolded Let_def loudEngine_mixed]
  from t have l: "length (snd (onAudioReady 1 loudEngine)) = 2"
    by simp
  from t have "\<forall>p < length (snd (onAudioReady 1 loudEngine)).
      [2, 2 :: real] ! p = 2 \<longrightarrow> snd (onAudioReady 1 loudEngine) ! p = tanh 2"
    by blast
  then have "\<forall>p < 2. [2, 2 :: real] ! p = 2 \<longrightarrow> snd (onAudioReady 1 loudEngine) ! p = tanh 2"
    by (simp only: l)
  then have "([2, 2 :: real] ! 0 = 2 \<longrightarrow> snd (onAudioReady 1 loudEngine) ! 0 = tanh 2)
      \<and> ([2, 2 :: real] ! 1 = 2 \<longrightarrow> snd (onAudioReady 1 loudEngine) ! 1 = tanh 2)"
    by simp
  with l h loudEngine_mixed show ?thesis
    by simp
qed

section \<open>The clock across callbacks\<close>

lemma callbacks_clock:
  "mCurrentFrame (callbacks ns s) = mCurrentFrame s + sum_list (map scast ns)"
  by (induction ns arbitrary: s) (simp_all add: onAudioReady_at add.assoc)

lemma onAudioReady_clock_sint:
  assumes "0 < sint numFrames" "sint (mCurrentFrame s) + sint numFrames < 2 ^ 63"
  shows "sint (mCurrentFrame (fst (onAudioReady numFrames s))) = sint (mCurrentFrame s) + sint numFrames"
proof -
  have "- (2 ^ 63) \<le> sint (mCurrentFrame s)"
    using sint_ge [of "mCurrentFrame s"] by simp
  with assms show ?thesis
    by (simp add: onAudioReady_at sint_word_ariths signed_take_bit_int_eq_self sint_scast64)
qed

lemma callbacks_clock_sint:
  "\<forall>n \<in> set ns. 0 < sint n \<Longrightarrow> sint (mCurrentFrame s) + sum_list (map sint ns) < 2 ^ 63 \<Longrightarrow>
     sint (mCurrentFrame (callbacks ns s)) = sint (mCurrentFrame s) + sum_list (map sint ns)"
proof (induction ns arbitrary: s)
  case Nil
  then show ?case by simp
next
  case (Cons n ns)
  from Cons.prems have pos: "0 < sint n" "\<forall>m \<in> set ns. 0 < sint m"
    by simp_all
  then have "0 \<le> sum_list (map sint ns)"
    by (intro sum_list_nonneg) auto
  with Cons.prems have "sint (mCurrentFrame s) + sint n < 2 ^ 63"
    by simp
  with pos have step: "sint (mCurrentFrame (fst (onAudioReady n s))) = sint (mCurrentFrame s) + sint n"
    by (simp add: onAudioReady_clock_sint)
  with Cons.prems have "sint (mCurrentFrame (fst (onAudioReady n s))) + sum_list (map sint ns) < 2 ^ 63"
    by simp
  with pos Cons.IH [of "fst (onAudioReady n s)"] step show ?case
    by simp
qed

text \<open>
  Claim C3, as the code has it.  Capture and mix of one callback both work with the
  clock value read on entry.  After the callback the clock is the entry value plus
  \<open>numFrames\<close> in 64-bit two's-complement arithmetic (\<open>fetch_add\<close> wraps).  Whenever
  \<open>numFrames\<close> is positive and the entry value plus \<open>numFrames\<close> does not exceed
  \<open>2^63 - 1\<close>, the clock strictly increases by exactly \<open>numFrames\<close>; over a run of
  callbacks that stays below that bound it increases by the sum of the delivered
  frame counts.
\<close>

theorem callback_advances_clock:
  assumes "0 <=s numFrames" "sint numFrames < 2 ^ 30"
  shows "fst (onAudioReady numFrames s) =
           (capture (mCurrentFrame s) numFrames s)\<lparr>mCurrentFrame := mCurrentFrame s + scast numFrames\<rparr>
         \<and> snd (onAudioReady numFrames s) =
             clipLoop numFrames 0 (mixTracks (mCurrentFrame s) numFrames (mTracks s)
               (replicate (nat (sint (numFrames * kChannelCountOut))) 0))
         \<and> mCurrentFrame (fst (onAudioReady numFrames s)) = mCurrentFrame s + scast numFrames
         \<and> (0 < sint numFrames \<and> sint (mCurrentFrame s) + sint numFrames < 2 ^ 63 \<longrightarrow>
              sint (mCurrentFrame (fst (onAudioReady numFrames s))) = sint (mCurrentFrame s) + sint numFrames
              \<and> mCurrentFrame s <s mCurrentFrame (fst (onAudioReady numFrames s)))
         \<and> ((\<forall>n \<in> set ns. 0 < sint n \<and> sint n < 2 ^ 30)
             \<and> sint (mCurrentFrame s) + sum_list (map sint ns) < 2 ^ 63 \<longrightarrow>
              sint (mCurrentFrame (callbacks ns s)) = sint (mCurrentFrame s) + sum_list (map sint ns))"
proof -
  have "sint (mCurrentFrame (fst (onAudioReady numFrames s))) = sint (mCurrentFrame s) + sint numFrames
        \<and> mCurrentFrame s <s mCurrentFrame (fst (onAudioReady numFrames s))"
    if "0 < sint numFrames \<and> sint (mCurrentFrame s) + sint numFrames < 2 ^ 63"
    using that onAudioReady_clock_sint [of numFrames s] by (simp add: word_sless_alt)
  moreover have "mCurrentFrame (fst (onAudioReady numFrames s)) = mCurrentFrame s + scast numFrames"
    by (simp add: onAudioReady_at)
  moreover have "sint (mCurrentFrame (callbacks ns s)) = sint (mCurrentFrame s) + sum_list (map sint ns)"
    if "(\<forall>n \<in> set ns. 0 < sint n \<and> sint n < 2 ^ 30)
        \<and> sint (mCurrentFrame s) + sum_list (map sint ns) < 2 ^ 63"
    using that by (simp add: callbacks_clock_sint)
  ultimately show ?thesis
    by (simp add: onAudioReady_at)
qed

text \<open>Callbacks of 256 and 128 frames from frame 10.\<close>

theorem callback_advances_clock_witness:
  "0 <=s (256 :: int32_t) \<and> sint (256 :: int32_t) < 2 ^ 30
   \<and> 0 < sint (256 :: int32_t) \<and> sint (mCurrentFrame afterSession) + sint (256 :: int32_t) < 2 ^ 63
   \<and> 0 < sint (128 :: int32_t) \<and> sint (128 :: int32_t) < 2 ^ 30
   \<and> sint (mCurrentFrame afterSession) + sum_list (map sint [256, 128 :: int32_t]) < 2 ^ 63
   \<and> sint (mCurrentFrame afterSession) = 10
   \<and> sint (mCurrentFrame (fst (onAudioReady 256 afterSession))) = 266
   \<and> sint (mCurrentFrame (callbacks [256, 128] afterSession)) = 394"
proof -
  have c: "mCurrentFrame afterSession = 10"
    by (simp add: afterSession_eval)
  have h: "0 <=s (256 :: int32_t)" "sint (256 :: int32_t) < 2 ^ 30"
    by (simp_all add: word_sle_eq)
  have g: "0 < sint (256 :: int32_t) \<and> sint (mCurrentFrame afterSession) + sint (256 :: int32_t) < 2 ^ 63"
    by (simp add: c)
  have q: "(\<forall>n \<in> set [256, 128 :: int32_t]. 0 < sint n \<and> sint n < 2 ^ 30)
      \<and> sint (mCurrentFrame afterSession) + sum_list (map sint [256, 128 :: int32_t]) < 2 ^ 63"
    by (simp add: c)
  note t = callback_advances_clock [OF h, of afterSession "[256, 128]"]
  from t g have "sint (mCurrentFrame (fst (onAudioReady 256 afterSession))) =
      sint (mCurrentFrame afterSession) + sint (256 :: int32_t)"
    by blast
  then have a: "sint (mCurrentFrame (fst (onAudioReady 256 afterSession))) = 266"
    by (simp add: c)
  from t q have "sint (mCurrentFrame (callbacks [256, 128] afterSession)) =
      sint (mCurrentFrame afterSession) + sum_list (map sint [256, 128 :: int32_t])"
    by blast
  then have b: "sint (mCurrentFrame (callbacks [256, 128] afterSession)) = 394"
    by (simp add: c)
  from c have c': "sint (mCurrentFrame afterSession) = 10"
    by simp
  have "0 < sint (128 :: int32_t) \<and> sint (128 :: int32_t) < 2 ^ 30"
    by simp
  with h g q a b c' show ?thesis
    by blast
qed

text \<open>
  Without the bound the clock does not always increase: \<open>seekToFrame\<close> accepts every
  64-bit value, and one callback of a single frame from \<open>2^63 - 1\<close> leaves the clock
  at \<open>- 2^63\<close>.
\<close>

theorem clock_wraps_counterexample:
  "sint (mCurrentFrame (seekToFrame maxFrame newAudioEngine)) = 9223372036854775807
   \<and> sint (mCurrentFrame (fst (onAudioReady 1 (seekToFrame maxFrame newAudioEngine)))) = - 9223372036854775808
   \<and> \<not> mCurrentFrame (seekToFrame maxFrame newAudioEngine)
        <s mCurrentFrame (fst (onAudioReady 1 (seekToFrame maxFrame newAudioEngine)))"
  by (simp add: onAudioReady_at seekToFrame_def maxFrame_def word_sless_alt)

section \<open>Capture gating\<close>

text \<open>
  The capture step on a sink that is open and in good state: the \<open>n \<ge> 1\<close> samples that
  the read delivered are taken from the device in either case; at or after the record
  start frame they are appended and the counter grows by \<open>n\<close>, before it the sink and
  the counter are untouched.
\<close>

lemma capture_good_sink:
  assumes rs: "mRecordStream s = Some rs" "state rs = Started"
    and got: "got = take (nat (sint numFrames)) (ready rs)" "got \<noteq> []"
    and rec: "mIsRecording s" "is_open (mRecordingFile s)" "good (mRecordingFile s)"
  shows "mRecordStream (capture currentFrame numFrames s) =
           Some (rs\<lparr>ready := drop (nat (sint numFrames)) (ready rs)\<rparr>)
         \<and> (if scast (mRecordStartFrame s) <=s currentFrame
             then content (mRecordingFile (capture currentFrame numFrames s)) =
                    content (mRecordingFile s) @ got
                  \<and> mRecordedSampleCount (capture currentFrame numFrames s) =
                    mRecordedSampleCount s + word_of_nat (length got)
             else mRecordingFile (capture currentFrame numFrames s) = mRecordingFile s
                  \<and> mRecordedSampleCount (capture currentFrame numFrames s) = mRecordedSampleCount s)"
proof -
  have "length got \<le> nat (sint numFrames)"
    by (simp add: got)
  moreover have "sint numFrames < 2 ^ 31"
    using sint_lt [of numFrames] by simp
  ultimately have k: "length got < 2 ^ 31"
    by simp
  from got have pos: "0 < length got"
    by simp
  have r: "sint (word_of_nat (length got) :: int32_t) = int (length got)"
    using k by (rule sint_of_nat32)
  have c: "(scast (word_of_nat (length got) :: int32_t) :: int64_t) = word_of_nat (length got)"
    using k by (rule scast_of_nat32)
  have rd: "stream_read rs numFrames = (got, rs\<lparr>ready := drop (nat (sint numFrames)) (ready rs)\<rparr>)"
    by (simp add: stream_read_def got)
  show ?thesis
    using rs rec pos
    by (simp add: capture_def rd Let_def word_sless_alt r c ofstream_write_def)
qed

text \<open>
  Claim C4 says that in every capture callback in which the read returned \<open>n \<ge> 1\<close>
  samples, recording is enabled and the sink is open, the samples are appended to the
  sink and counted when \<open>currentFrame \<ge> recordStartFrame\<close>.  In the engine \<open>restarted\<close>
  all of that holds (recording enabled, sink open, one sample ready, frame 10 past the
  start frame 5), but the second \<open>open\<close> has left the stream in the failed state:
  the callback takes the sample from the device, \<open>write\<close> appends nothing, and the
  counter goes from 0 to 1.
\<close>

theorem capture_on_failed_sink_counts_unwritten:
  "mIsRecording restarted \<and> is_open (mRecordingFile restarted)
   \<and> mRecordStream restarted = Some \<lparr>state = Started, ready = [5]\<rparr>
   \<and> scast (mRecordStartFrame restarted) <=s mCurrentFrame restarted
   \<and> mRecordStream (fst (onAudioReady 1 restarted)) = Some \<lparr>state = Started, ready = []\<rparr>
   \<and> content (mRecordingFile (fst (onAudioReady 1 restarted))) = content (mRecordingFile restarted)
   \<and> mRecordedSampleCount restarted = 0
   \<and> mRecordedSampleCount (fst (onAudioReady 1 restarted)) = 1"
  by (simp add: onAudioReady_at restarted_eval capture_def stream_read_def ofstream_write_def
      word_sless_alt word_sle_eq Let_def)

section \<open>Stop, seek and reset\<close>

lemma start_clock: "mCurrentFrame (start dev s) = mCurrentFrame s"
  by (simp add: start_def openStreams_def Let_def split: option.splits)

lemma start_tracks: "mTracks (start dev s) = mTracks s"
  by (simp add: start_def openStreams_def Let_def split: option.splits)

lemma stop_clock: "mCurrentFrame (stop s) = mCurrentFrame s"
  by (simp add: stop_def stopStreams_def)

lemma stop_tracks: "mTracks (stop s) = mTracks s"
  by (simp add: stop_def stopStreams_def)

text \<open>
  Claim C5.  \<open>stop\<close> never modifies the frame clock, in any engine state.  A following
  \<open>start\<close> (whatever the device answers) leaves the clock at the value it had at the
  moment of \<open>stop\<close>, and the first callback after it captures and mixes from that
  value, not from 0.  \<open>stop\<close> changes nothing when the engine is not running, and a
  second \<open>stop\<close> changes nothing after a first.
\<close>

theorem stop_keeps_clock:
  "mCurrentFrame (stop s) = mCurrentFrame s
   \<and> mCurrentFrame (start dev (stop s)) = mCurrentFrame s
   \<and> (\<not> mIsRunning s \<longrightarrow> stop s = s)
   \<and> stop (stop s) = stop s
   \<and> (0 <=s numFrames \<and> sint numFrames < 2 ^ 30 \<longrightarrow>
        onAudioReady numFrames (start dev (stop s)) =
          ((capture (mCurrentFrame s) numFrames (start dev (stop s)))
             \<lparr>mCurrentFrame := mCurrentFrame s + scast numFrames\<rparr>,
           clipLoop numFrames 0 (mixTracks (mCurrentFrame s) numFrames (mTracks s)
             (replicate (nat (sint (numFrames * kChannelCountOut))) 0))))"
proof -
  have "stop (stop s) = stop s"
    by (simp add: stop_def stopStreams_def)
  moreover have "\<not> mIsRunning s \<longrightarrow> stop s = s"
    by (simp add: stop_def)
  ultimately show ?thesis
    by (simp add: onAudioReady_at start_clock stop_clock start_tracks stop_tracks)
qed

theorem stop_keeps_clock_witness:
  "0 <=s (4 :: int32_t) \<and> sint (4 :: int32_t) < 2 ^ 30
   \<and> mIsRunning afterSession \<and> \<not> mIsRunning (stop afterSession)
   \<and> stop (stop afterSession) = stop afterSession
   \<and> getCurrentFrame (stop afterSession) = 10
   \<and> getCurrentFrame (start workingDevice (stop afterSession)) = 10
   \<and> getCurrentFrame (fst (onAudioReady 4 (start workingDevice (stop afterSession)))) = 14"
proof -
  have h: "0 <=s (4 :: int32_t) \<and> sint (4 :: int32_t) < 2 ^ 30"
    by (simp add: word_sle_eq)
  have r: "mIsRunning afterSession" "\<not> mIsRunning (stop afterSession)"
    and c: "mCurrentFrame afterSession = 10"
    by (simp_all add: afterSession_eval stop_def stopStreams_def)
  note t = stop_keeps_clock [of afterSession workingDevice 4]
  note u = stop_keeps_clock [of "stop afterSession" workingDevice 4]
  from u r have i: "stop (stop afterSession) = stop afterSession"
    by blast
  from t c have a: "getCurrentFrame (stop afterSession) = 10"
    "getCurrentFrame (start workingDevice (stop afterSession)) = 10"
    by (simp_all add: getCurrentFrame_def)
  from t h have "onAudioReady 4 (start workingDevice (stop afterSession)) =
          ((capture (mCurrentFrame afterSession) 4 (start workingDevice (stop afterSession)))
             \<lparr>mCurrentFrame := mCurrentFrame afterSession + scast (4 :: int32_t)\<rparr>,
           clipLoop 4 0 (mixTracks (mCurrentFrame afterSession) 4 (mTracks afterSession)
             (replicate (nat (sint (4 * kChannelCountOut))) 0)))"
    by blast
  then have b: "getCurrentFrame (fst (onAudioReady 4 (start workingDevice (stop afterSession)))) = 14"
    by (simp add: getCurrentFrame_def c)
  from h r i a b show ?thesis
    by blast
qed

text \<open>
  Claim C6.  \<open>seekToFrame frame\<close> overwrites the frame clock with the given value,
  whatever it is (negative and far-future values included: nothing is checked), and
  changes nothing else: tracks, recording flag, record start frame, captured-sample
  counter, sink, streams and running flag are as before.  The very next callback
  captures and mixes with \<open>currentFrame = frame\<close>.
\<close>

theorem seekToFrame_overwrites_clock_only:
  "mCurrentFrame (seekToFrame frame s) = frame
   \<and> getCurrentFrame (seekToFrame frame s) = frame
   \<and> mTracks (seekToFrame frame s) = mTracks s
   \<and> mIsRecording (seekToFrame frame s) = mIsRecording s
   \<and> mRecordStartFrame (seekToFrame frame s) = mRecordStartFrame s
   \<and> mRecordedSampleCount (seekToFrame frame s) = mRecordedSampleCount s
   \<and> mRecordingFile (seekToFrame frame s) = mRecordingFile s
   \<and> mPlayStream (seekToFrame frame s) = mPlayStream s
   \<and> mRecordStream (seekToFrame frame s) = mRecordStream s
   \<and> mIsRunning (seekToFrame frame s) = mIsRunning s
   \<and> (0 <=s numFrames \<and> sint numFrames < 2 ^ 30 \<longrightarrow>
        onAudioReady numFrames (seekToFrame frame s) =
          ((capture frame numFrames s)\<lparr>mCurrentFrame := frame + scast numFrames\<rparr>,
           clipLoop numFrames 0 (mixTracks frame numFrames (mTracks s)
             (replicate (nat (sint (numFrames * kChannelCountOut))) 0))))"
  by (simp add: onAudioReady_at seekToFrame_def getCurrentFrame_def capture_clock_update)

theorem seekToFrame_overwrites_clock_only_witness:
  "0 <=s (4 :: int32_t) \<and> sint (4 :: int32_t) < 2 ^ 30
   \<and> getCurrentFrame (seekToFrame (- 5) afterSession) = - 5
   \<and> getCurrentFrame (fst (onAudioReady 4 (seekToFrame (- 5) afterSession))) = - 1
   \<and> getRecordedSampleCount (seekToFrame (- 5) afterSession) = 3"
proof -
  have h: "0 <=s (4 :: int32_t) \<and> sint (4 :: int32_t) < 2 ^ 30"
    by (simp add: word_sle_eq)
  note t = seekToFrame_overwrites_clock_only [of "- 5" afterSession 4]
  from t h have "onAudioReady 4 (seekToFrame (- 5) afterSession) =
          ((capture (- 5) 4 afterSession)\<lparr>mCurrentFrame := - 5 + scast (4 :: int32_t)\<rparr>,
           clipLoop 4 0 (mixTracks (- 5) 4 (mTracks afterSession)
             (replicate (nat (sint (4 * kChannelCountOut))) 0)))"
    by blast
  then have a: "getCurrentFrame (fst (onAudioReady 4 (seekToFrame (- 5) afterSession))) = - 1"
    by (simp add: getCurrentFrame_def)
  from t have b: "getCurrentFrame (seekToFrame (- 5) afterSession) = - 5"
    by blast
  from t have "mRecordedSampleCount (seekToFrame (- 5) afterSession) = mRecordedSampleCount afterSession"
    by blast
  then have c: "getRecordedSampleCount (seekToFrame (- 5) afterSession) = 3"
    by (simp add: getRecordedSampleCount_def afterSession_eval)
  from h a b c show ?thesis
    by blast
qed

lemma streamsHeld_stopStreams:
  "streamsHeld (stopStreams s) = map (\<lambda>(w, st). (w, stream_stop st)) (streamsHeld s)"
  by (simp add: streamsHeld_def stopStreams_def split: option.splits)

lemma closeStreams_result:
  "fst (closeStreams s) = s\<lparr>mPlayStream := None, mRecordStream := None\<rparr>
   \<and> snd (closeStreams s) = map (\<lambda>(w, st). CloseCall w (stream_close st)) (streamsHeld s)"
  by (cases s) (simp add: closeStreams_def streamsHeld_def split: option.splits)

lemma reset_result:
  "fst (reset s) =
     s\<lparr>mIsRunning := False, mPlayStream := None, mRecordStream := None, mCurrentFrame := 0\<rparr>
   \<and> snd (reset s) =
       map (\<lambda>(w, st). StopCall w (stream_stop st)) (streamsHeld s)
       @ map (\<lambda>(w, st). CloseCall w (stream_close (stream_stop st))) (streamsHeld s)"
proof -
  have h: "streamsHeld (s\<lparr>mIsRunning := False\<rparr>) = streamsHeld s"
    by (simp add: streamsHeld_def)
  have a: "fst (reset s) = (fst (closeStreams (stopStreams (s\<lparr>mIsRunning := False\<rparr>))))\<lparr>mCurrentFrame := 0\<rparr>"
    and b: "snd (reset s) =
      map (\<lambda>(w, st). StopCall w st) (streamsHeld (stopStreams (s\<lparr>mIsRunning := False\<rparr>)))
      @ snd (closeStreams (stopStreams (s\<lparr>mIsRunning := False\<rparr>)))"
    by (simp_all add: reset_def Let_def split: prod.splits)
  from a have "fst (reset s) =
     s\<lparr>mIsRunning := False, mPlayStream := None, mRecordStream := None, mCurrentFrame := 0\<rparr>"
    by (simp add: closeStreams_result stopStreams_def)
  moreover from b have "snd (reset s) =
       map (\<lambda>(w, st). StopCall w (stream_stop st)) (streamsHeld s)
       @ map (\<lambda>(w, st). CloseCall w (stream_close (stream_stop st))) (streamsHeld s)"
    by (simp add: closeStreams_result streamsHeld_stopStreams h split_def comp_def)
  ultimately show ?thesis
    by simp
qed

text \<open>
  Claim C7.  In every engine state \<open>reset\<close> stops every stream the engine holds (the
  play stream, then the record stream), then closes each of them, and releases both
  handles: the device calls are exactly these, no stream is left started by its stop
  call, and each stream is closed by its close call.  \<open>reset\<close> clears the running flag
  and sets the frame clock to 0; the tracks stay loaded.  The next \<open>start\<close> leaves the
  clock at 0, so the first callback after it captures and mixes from frame 0.
\<close>

theorem reset_closes_and_zeroes:
  "mPlayStream (fst (reset s)) = None
   \<and> mRecordStream (fst (reset s)) = None
   \<and> \<not> mIsRunning (fst (reset s))
   \<and> mCurrentFrame (fst (reset s)) = 0
   \<and> mTracks (fst (reset s)) = mTracks s
   \<and> snd (reset s) =
       map (\<lambda>(w, st). StopCall w (stream_stop st)) (streamsHeld s)
       @ map (\<lambda>(w, st). CloseCall w (stream_close (stream_stop st))) (streamsHeld s)
   \<and> (\<forall>(w, st) \<in> set (streamsHeld s).
         state (stream_stop st) \<noteq> Started
         \<and> (state st = Started \<longrightarrow> state (stream_stop st) = Stopped)
         \<and> state (stream_close (stream_stop st)) = Closed)
   \<and> (\<forall>p. mPlayStream s = Some p \<longrightarrow> (Play, p) \<in> set (streamsHeld s))
   \<and> (\<forall>r. mRecordStream s = Some r \<longrightarrow> (Record, r) \<in> set (streamsHeld s))
   \<and> mCurrentFrame (start dev (fst (reset s))) = 0
   \<and> (0 <=s numFrames \<and> sint numFrames < 2 ^ 30 \<longrightarrow>
        onAudioReady numFrames (start dev (fst (reset s))) =
          ((capture 0 numFrames (start dev (fst (reset s))))\<lparr>mCurrentFrame := scast numFrames\<rparr>,
           clipLoop numFrames 0 (mixTracks 0 numFrames (mTracks s)
             (replicate (nat (sint (numFrames * kChannelCountOut))) 0))))"
proof -
  have r: "mPlayStream (fst (reset s)) = None" "mRecordStream (fst (reset s)) = None"
    "\<not> mIsRunning (fst (reset s))" "mCurrentFrame (fst (reset s)) = 0"
    "mTracks (fst (reset s)) = mTracks s"
    by (simp_all add: reset_result)
  have st: "state (stream_stop st) \<noteq> Started
         \<and> (state st = Started \<longrightarrow> state (stream_stop st) = Stopped)
         \<and> state (stream_close (stream_stop st)) = Closed" for st
    by (simp add: stream_stop_def stream_close_def)
  have held: "(\<forall>p. mPlayStream s = Some p \<longrightarrow> (Play, p) \<in> set (streamsHeld s))
      \<and> (\<forall>r. mRecordStream s = Some r \<longrightarrow> (Record, r) \<in> set (streamsHeld s))"
    by (simp add: streamsHeld_def split: option.splits)
  from r st held show ?thesis
    by (simp add: onAudioReady_at start_clock start_tracks reset_result split_def)
qed

text \<open>
  A running engine at frame 10 with both streams started: two stop calls, two close
  calls, no handle left, and the first callback after the next \<open>start\<close> runs from
  frame 0.
\<close>

theorem reset_closes_and_zeroes_witness:
  "0 <=s (4 :: int32_t) \<and> sint (4 :: int32_t) < 2 ^ 30
   \<and> getCurrentFrame afterSession = 10
   \<and> mPlayStream afterSession = Some \<lparr>state = Started, ready = []\<rparr>
   \<and> mRecordStream afterSession = Some \<lparr>state = Started, ready = []\<rparr>
   \<and> snd (reset afterSession) =
       [StopCall Play \<lparr>state = Stopped, ready = []\<rparr>, StopCall Record \<lparr>state = Stopped, ready = []\<rparr>,
        CloseCall Play \<lparr>state = Closed, ready = []\<rparr>, CloseCall Record \<lparr>state = Closed, ready = []\<rparr>]
   \<and> mPlayStream (fst (reset afterSession)) = None \<and> mRecordStream (fst (reset afterSession)) = None
   \<and> getCurrentFrame (fst (reset afterSession)) = 0
   \<and> getCurrentFrame (start workingDevice (fst (reset afterSession))) = 0
   \<and> mIsRunning (start workingDevice (fst (reset afterSession)))
   \<and> getCurrentFrame (fst (onAudioReady 4 (start workingDevice (fst (reset afterSession))))) = 4"
proof -
  have h: "0 <=s (4 :: int32_t) \<and> sint (4 :: int32_t) < 2 ^ 30"
    by (simp add: word_sle_eq)
  note t = reset_closes_and_zeroes [of afterSession workingDevice 4]
  have a: "getCurrentFrame afterSession = 10"
    "mPlayStream afterSession = Some \<lparr>state = Started, ready = []\<rparr>"
    "mRecordStream afterSession = Some \<lparr>state = Started, ready = []\<rparr>"
    by (simp_all add: afterSession_eval getCurrentFrame_def)
  have sh: "streamsHeld afterSession =
      [(Play, \<lparr>state = Started, ready = []\<rparr>), (Record, \<lparr>state = Started, ready = []\<rparr>)]"
    by (simp add: streamsHeld_def a)
  from t have "snd (reset afterSession) =
       map (\<lambda>(w, st). StopCall w (stream_stop st)) (streamsHeld afterSession)
       @ map (\<lambda>(w, st). CloseCall w (stream_close (stream_stop st))) (streamsHeld afterSession)"
    by blast
  moreover from t have "\<forall>(w, st) \<in> set (streamsHeld afterSession).
         state (stream_stop st) \<noteq> Started
         \<and> (state st = Started \<longrightarrow> state (stream_stop st) = Stopped)
         \<and> state (stream_close (stream_stop st)) = Closed"
    by blast
  ultimately have l: "snd (reset afterSession) =
       [StopCall Play \<lparr>state = Stopped, ready = []\<rparr>, StopCall Record \<lparr>state = Stopped, ready = []\<rparr>,
        CloseCall Play \<lparr>state = Closed, ready = []\<rparr>, CloseCall Record \<lparr>state = Closed, ready = []\<rparr>]"
    by (simp add: sh stream_stop_def stream_close_def)
  from t have b: "mPlayStream (fst (reset afterSession)) = None \<and> mRecordStream (fst (reset afterSession)) = None
      \<and> getCurrentFrame (fst (reset afterSession)) = 0
      \<and> getCurrentFrame (start workingDevice (fst (reset afterSession))) = 0"
    by (simp add: getCurrentFrame_def)
  then have c: "mIsRunning (start workingDevice (fst (reset afterSession)))"
    using t by (simp add: start_def openStreams_def startable_def workingDevice_def Let_def)
  from t h have "onAudioReady 4 (start workingDevice (fst (reset afterSession))) =
          ((capture 0 4 (start workingDevice (fst (reset afterSession))))\<lparr>mCurrentFrame := scast (4 :: int32_t)\<rparr>,
           clipLoop 4 0 (mixTracks 0 4 (mTracks afterSession)
             (replicate (nat (sint (4 * kChannelCountOut))) 0)))"
    by blast
  then have d: "getCurrentFrame (fst (onAudioReady 4 (start workingDevice (fst (reset afterSession))))) = 4"
    by (simp add: getCurrentFrame_def)
  from h a l b c d show ?thesis
    by blast
qed

section \<open>Starting a recording\<close>

text \<open>
  With no sink open and recording off, \<open>startRecording\<close> does what the claim says: the
  flag and \<open>is_open()\<close> afterwards tell whether the path could be opened, and the
  counter is 0 either way.
\<close>

lemma startRecording_closed_sink:
  assumes "\<not> is_open (mRecordingFile s)" "\<not> mIsRecording s"
  shows "mIsRecording (startRecording fs filePath startFrame' s) = fs filePath
         \<and> is_open (mRecordingFile (startRecording fs filePath startFrame' s)) = fs filePath
         \<and> (fs filePath \<longrightarrow> good (mRecordingFile (startRecording fs filePath startFrame' s))
               \<and> content (mRecordingFile (startRecording fs filePath startFrame' s)) = [])
         \<and> mRecordedSampleCount (startRecording fs filePath startFrame' s) = 0
         \<and> mRecordStartFrame (startRecording fs filePath startFrame' s) = startFrame'"
  using assms by (simp add: startRecording_def ofstream_open_def Let_def)

text \<open>
  Claim C8 says that when \<open>startRecording\<close> fails to open the sink at the path,
  recording is not enabled, and that the flag is set only when the sink opened
  successfully.  In \<open>recordingA\<close> a sink is open.  \<open>/b.pcm\<close> cannot be opened, and
  \<open>open\<close> on the open stream fails without touching the attached file; \<open>is_open()\<close>
  is still true, so the second \<open>startRecording\<close> stores \<open>true\<close> in the flag, after it
  has overwritten start frame and counter.
\<close>

theorem startRecording_while_open_enables:
  "mIsRecording recordingA \<and> is_open (mRecordingFile recordingA) \<and> good (mRecordingFile recordingA)
   \<and> \<not> onlyA ''/b.pcm''
   \<and> mRecordingFile recordingB = (mRecordingFile recordingA)\<lparr>good := False\<rparr>
   \<and> mIsRecording recordingB
   \<and> getRecordingStartFrame recordingB = 5
   \<and> getRecordedSampleCount recordingB = 0"
  by (simp add: recordingB_eval recordingA_eval onlyA_def getRecordingStartFrame_def
      getRecordedSampleCount_def)

text \<open>
  Claim C10.  When the open of \<open>startRecording\<close> fails (the stream is not \<open>good()\<close>
  afterwards), the record start frame has nevertheless been overwritten with the new
  \<open>startFrame\<close> and the captured-sample counter has been reset to 0: the getters return
  the new start frame and 0, not the figures of an earlier session.
\<close>

theorem startRecording_failed_open_overwrites:
  "\<not> good (mRecordingFile (startRecording fs filePath startFrame' s)) \<Longrightarrow>
     mRecordStartFrame (startRecording fs filePath startFrame' s) = startFrame'
     \<and> mRecordedSampleCount (startRecording fs filePath startFrame' s) = 0
     \<and> getRecordingStartFrame (startRecording fs filePath startFrame' s) = scast startFrame'
     \<and> getRecordedSampleCount (startRecording fs filePath startFrame' s) = 0"
  by (simp add: startRecording_def Let_def getRecordingStartFrame_def getRecordedSampleCount_def)

text \<open>
  After a session with start frame 7 and 3 captured samples, a failed
  \<open>startRecording\<close> at frame 100 leaves recording off and the getters at 100 and 0.
\<close>

theorem startRecording_failed_open_overwrites_witness:
  "\<not> good (mRecordingFile (startRecording onlyA ''/b.pcm'' 100 afterSession))
   \<and> \<not> mIsRecording (startRecording onlyA ''/b.pcm'' 100 afterSession)
   \<and> getRecordingStartFrame afterSession = 7
   \<and> getRecordedSampleCount afterSession = 3
   \<and> getRecordingStartFrame (startRecording onlyA ''/b.pcm'' 100 afterSession) = 100
   \<and> getRecordedSampleCount (startRecording onlyA ''/b.pcm'' 100 afterSession) = 0"
proof -
  have h: "\<not> good (mRecordingFile (startRecording onlyA ''/b.pcm'' 100 afterSession))"
    "\<not> mIsRecording (startRecording onlyA ''/b.pcm'' 100 afterSession)"
    by (simp_all add: startRecording_def Let_def afterSession_eval ofstream_open_def onlyA_def)
  have b: "getRecordingStartFrame afterSession = 7" "getRecordedSampleCount afterSession = 3"
    by (simp_all add: afterSession_eval getRecordingStartFrame_def getRecordedSampleCount_def)
  from startRecording_failed_open_overwrites [OF h(1)] have
    "getRecordingStartFrame (startRecording onlyA ''/b.pcm'' 100 afterSession) = scast (100 :: int32_t)"
    "getRecordedSampleCount (startRecording onlyA ''/b.pcm'' 100 afterSession) = 0"
    by blast+
  with h b show ?thesis
    by simp
qed

end
